theory Spec2Isabelle
  imports Main "HOL-Library.Word" "HOL-Library.Multiset" "HOL-Library.Char_ord"
begin

unbundle bit_operations_syntax

section \<open>Machine types and constants of \<^verbatim>\<open>unicode.cpp\<close>\<close>

type_synonym u8 = "8 word"
type_synonym u16 = "16 word"
type_synonym u32 = "32 word"

text \<open>Thresholds for UTF-8 decoding/encoding.\<close>

definition decode_threshold_non_ascii :: u8 where "decode_threshold_non_ascii = 0x80"
definition decode_threshold_2_bytes :: u8 where "decode_threshold_2_bytes = 0xC0"
definition decode_threshold_3_bytes :: u8 where "decode_threshold_3_bytes = 0xE0"
definition decode_threshold_4_bytes :: u8 where "decode_threshold_4_bytes = 0xF0"
definition decode_threshold_5_bytes :: u8 where "decode_threshold_5_bytes = 0xF8"
definition decode_threshold_6_bytes :: u8 where "decode_threshold_6_bytes = 0xFC"
definition encode_threshold_2_bytes :: u16 where "encode_threshold_2_bytes = 0x0080"
definition encode_threshold_3_bytes :: u16 where "encode_threshold_3_bytes = 0x0800"

text \<open>The character used when there is no sane way to handle a glyph (\<^verbatim>\<open>'?'\<close>).\<close>

definition unknown_character :: u8 where "unknown_character = 0x3f"

section \<open>The Grapheme type\<close>

text \<open>
  \<^verbatim>\<open>is_combining_mark\<close> takes a \<^verbatim>\<open>uint32_t\<close>; every caller passes a
  \<^verbatim>\<open>uint16_t\<close>, which C++ zero-extends.
\<close>

definition combining_ranges :: "(u16 \<times> u16) list" where
  "combining_ranges =
     [(0x0300, 0x036f), (0x0653, 0x065f), (0x1ab0, 0x1aff),
      (0x1dc0, 0x1dff), (0x20d0, 0x20ff), (0xfe20, 0xfe2f)]"

definition is_combining_mark :: "u32 \<Rightarrow> bool" where
  "is_combining_mark cp =
     list_ex (\<lambda>range. cp \<ge> ucast (fst range) \<and> cp \<le> ucast (snd range))
       combining_ranges"

text \<open>The private fields of \<^verbatim>\<open>class Grapheme\<close>.\<close>

record grapheme =
  code_point :: u16
  marks :: "u16 list"
  marks_sorted :: "u16 list"
  is_empty :: bool
  is_valid :: bool

text \<open>\<^verbatim>\<open>Grapheme() = default\<close>: the default member initialisers.\<close>

definition Grapheme_default :: grapheme where
  "Grapheme_default =
     \<lparr>code_point = 0x20, marks = [], marks_sorted = [], is_empty = True, is_valid = True\<rparr>"

definition Invalidate :: "grapheme \<Rightarrow> grapheme" where
  "Invalidate g =
     g\<lparr>is_empty := False, is_valid := False, code_point := ucast unknown_character,
       marks := [], marks_sorted := []\<rparr>"

text \<open>\<^verbatim>\<open>Grapheme::Grapheme(const uint16_t code_point)\<close>.\<close>

definition Grapheme :: "u16 \<Rightarrow> grapheme" where
  "Grapheme cp =
     (let g = \<lparr>code_point = cp, marks = [], marks_sorted = [], is_empty = False, is_valid = True\<rparr>
      in if is_combining_mark (ucast cp) then Invalidate g else g)"

definition IsEmpty :: "grapheme \<Rightarrow> bool" where "IsEmpty g = is_empty g"
definition IsValid :: "grapheme \<Rightarrow> bool" where "IsValid g = is_valid g"
definition HasMark :: "grapheme \<Rightarrow> bool" where "HasMark g = (marks g \<noteq> [])"
definition GetCodePoint :: "grapheme \<Rightarrow> u16" where "GetCodePoint g = code_point g"

text \<open>\<^verbatim>\<open>PushInto\<close> appends to the output vector; nothing for an empty or invalid grapheme.\<close>

definition PushInto :: "grapheme \<Rightarrow> u16 list \<Rightarrow> u16 list" where
  "PushInto g str_out =
     (if is_empty g \<or> \<not> is_valid g then str_out
      else str_out @ [code_point g] @ marks g)"

text \<open>
  \<^verbatim>\<open>AddMark\<close>. The argument order lets a sequence of calls be written as a
  \<^term>\<open>foldl\<close> over the marks.
\<close>

definition AddMark :: "grapheme \<Rightarrow> u16 \<Rightarrow> grapheme" where
  "AddMark g in_code_point =
     (if \<not> is_valid g then g
      else if \<not> is_combining_mark (ucast in_code_point) \<or> is_empty g then Invalidate g
      else if in_code_point \<in> set (marks g) then g
      else g\<lparr>marks := marks g @ [in_code_point],
             marks_sorted := sort (marks_sorted g @ [in_code_point])\<rparr>)"

definition StripMarks :: "grapheme \<Rightarrow> grapheme" where
  "StripMarks g = g\<lparr>marks := [], marks_sorted := []\<rparr>"

text \<open>\<^verbatim>\<open>Grapheme::operator==\<close>.\<close>

definition grapheme_eq :: "grapheme \<Rightarrow> grapheme \<Rightarrow> bool" where
  "grapheme_eq g other \<longleftrightarrow>
     is_empty g = is_empty other \<and> is_valid g = is_valid other \<and>
     code_point g = code_point other \<and> marks_sorted g = marks_sorted other"

text \<open>
  \<^verbatim>\<open>Grapheme::operator<\<close>. The loop over \<^verbatim>\<open>idx\<close> runs only when both mark
  vectors have the same size; \<^term>\<open>None\<close> means that it fell through without returning.
\<close>

fun compare_marks :: "u16 list \<Rightarrow> u16 list \<Rightarrow> bool option" where
  "compare_marks (x # xs) (y # ys) =
     (if x < y then Some True else if x > y then Some False else compare_marks xs ys)"
| "compare_marks _ _ = None"

text \<open>The path condition under which control reaches the two trailing \<^verbatim>\<open>assert\<close>s.\<close>

definition less_reaches_asserts :: "grapheme \<Rightarrow> grapheme \<Rightarrow> bool" where
  "less_reaches_asserts g other \<longleftrightarrow>
     \<not> code_point g < code_point other \<and> \<not> code_point g > code_point other \<and>
     \<not> (marks_sorted g = [] \<and> marks_sorted other = []) \<and>
     \<not> length (marks_sorted g) < length (marks_sorted other) \<and>
     \<not> length (marks_sorted g) > length (marks_sorted other) \<and>
     compare_marks (marks_sorted g) (marks_sorted other) = None"

datatype 'a asserted = AssertionFailed | Returned 'a

definition grapheme_less_asserted :: "grapheme \<Rightarrow> grapheme \<Rightarrow> bool asserted" where
  "grapheme_less_asserted g other =
     (if code_point g < code_point other then Returned True
      else if code_point g > code_point other then Returned False
      else if marks_sorted g = [] \<and> marks_sorted other = [] then Returned False
      else if length (marks_sorted g) < length (marks_sorted other) then Returned True
      else if length (marks_sorted g) > length (marks_sorted other) then Returned False
      else (case compare_marks (marks_sorted g) (marks_sorted other) of
              Some b \<Rightarrow> Returned b
            | None \<Rightarrow>
                if is_empty g \<noteq> is_empty other then AssertionFailed
                else if is_valid g \<noteq> is_valid other then AssertionFailed
                else Returned False))"

text \<open>
  The value \<^verbatim>\<open>operator<\<close> returns when the asserts are compiled out or hold; this
  is the comparator of every \<^verbatim>\<open>std::map<Grapheme, uint8_t>\<close>.
\<close>

definition grapheme_less :: "grapheme \<Rightarrow> grapheme \<Rightarrow> bool" where
  "grapheme_less g other =
     (case grapheme_less_asserted g other of Returned b \<Rightarrow> b | AssertionFailed \<Rightarrow> False)"

section \<open>\<^verbatim>\<open>std::map\<close> as a list sorted by its comparator\<close>

text \<open>
  A \<^verbatim>\<open>std::map<K, V>\<close> is modelled by the list of its entries in iteration order,
  that is sorted by the comparator \<open>lt\<close>. Two keys are the same key when neither is lt
  than the other.
\<close>

type_synonym ('k, 'v) std_map = "('k \<times> 'v) list"

fun smap_find :: "('k \<Rightarrow> 'k \<Rightarrow> bool) \<Rightarrow> ('k, 'v) std_map \<Rightarrow> 'k \<Rightarrow> 'v option" where
  "smap_find lt [] k = None"
| "smap_find lt ((k', v) # m) k =
     (if \<not> lt k' k \<and> \<not> lt k k' then Some v else smap_find lt m k)"

definition smap_count :: "('k \<Rightarrow> 'k \<Rightarrow> bool) \<Rightarrow> ('k, 'v) std_map \<Rightarrow> 'k \<Rightarrow> bool" where
  "smap_count lt m k = (smap_find lt m k \<noteq> None)"

text \<open>\<^verbatim>\<open>try_emplace\<close>: inserts unless the key is present; tells whether it inserted.\<close>

fun smap_try_emplace ::
  "('k \<Rightarrow> 'k \<Rightarrow> bool) \<Rightarrow> ('k, 'v) std_map \<Rightarrow> 'k \<Rightarrow> 'v \<Rightarrow> ('k, 'v) std_map \<times> bool" where
  "smap_try_emplace lt [] k v = ([(k, v)], True)"
| "smap_try_emplace lt ((k', v') # m) k v =
     (if lt k k' then ((k, v) # (k', v') # m, True)
      else if lt k' k then
        (case smap_try_emplace lt m k v of (m', was_added) \<Rightarrow> ((k', v') # m', was_added))
      else ((k', v') # m, False))"

text \<open>
  \<^verbatim>\<open>m[k]\<close> followed by a change of the entry: the entry is created from the default
  value \<open>d\<close> when the key is absent, then \<open>f\<close> is applied to it. An existing entry keeps
  its stored key.
\<close>

fun smap_modify ::
  "('k \<Rightarrow> 'k \<Rightarrow> bool) \<Rightarrow> 'v \<Rightarrow> ('v \<Rightarrow> 'v) \<Rightarrow> ('k, 'v) std_map \<Rightarrow> 'k \<Rightarrow> ('k, 'v) std_map" where
  "smap_modify lt d f [] k = [(k, f d)]"
| "smap_modify lt d f ((k', v') # m) k =
     (if lt k k' then (k, f d) # (k', v') # m
      else if lt k' k then (k', v') # smap_modify lt d f m k
      else (k', f v') # m)"

text \<open>\<^verbatim>\<open>m[k] = v\<close>.\<close>

definition smap_assign ::
  "('k \<Rightarrow> 'k \<Rightarrow> bool) \<Rightarrow> ('k, 'v) std_map \<Rightarrow> 'k \<Rightarrow> 'v \<Rightarrow> ('k, 'v) std_map" where
  "smap_assign lt m k v = smap_modify lt v (\<lambda>_. v) m k"

definition smap_erase :: "('k \<Rightarrow> 'k \<Rightarrow> bool) \<Rightarrow> ('k, 'v) std_map \<Rightarrow> 'k \<Rightarrow> ('k, 'v) std_map" where
  "smap_erase lt m k = filter (\<lambda>(k', v). lt k' k \<or> lt k k') m"

text \<open>\<^verbatim>\<open>add_if_not_mapped\<close>.\<close>

definition add_if_not_mapped ::
  "('k \<Rightarrow> 'k \<Rightarrow> bool) \<Rightarrow> ('k, 'v) std_map \<Rightarrow> 'k \<Rightarrow> 'v \<Rightarrow> ('k, 'v) std_map \<times> bool" where
  "add_if_not_mapped lt mapping first second = smap_try_emplace lt mapping first second"

section \<open>The global tables\<close>

type_synonym code_page_mapping_t = "(grapheme, u8) std_map"
type_synonym code_page_mapping_reverse_t = "(u8, grapheme) std_map"
type_synonym decomposition_rules_t = "(u16, grapheme) std_map"
type_synonym config_duplicates_t = "(u16, u16) std_map"
type_synonym config_aliases_t = "(u16 \<times> u16) list"

record ConfigMappingEntry =
  valid :: bool
  mapping :: code_page_mapping_reverse_t
  extends_code_page :: u16
  extends_dir :: string
  extends_file :: string

definition ConfigMappingEntry_default :: ConfigMappingEntry where
  "ConfigMappingEntry_default =
     \<lparr>valid = False, mapping = [], extends_code_page = 0, extends_dir = [], extends_file = []\<rparr>"

type_synonym config_mappings_t = "(u16, ConfigMappingEntry) std_map"

text \<open>
  The file-scope \<^verbatim>\<open>static\<close> tables, together with the function-local statics
  \<^verbatim>\<open>already_tried\<close> of \<^verbatim>\<open>construct_mapping\<close> and \<^verbatim>\<open>config_loaded\<close> of
  \<^verbatim>\<open>load_config_if_needed\<close>. The log and the sets that only deduplicate warnings are
  left out: no table and no result depends on them.
\<close>

record registry =
  config_mappings :: config_mappings_t
  config_aliases :: config_aliases_t
  config_duplicates :: config_duplicates_t
  mapping_ascii :: code_page_mapping_t
  decomposition_rules :: decomposition_rules_t
  mappings_normalized_by_codepage :: "(u16, code_page_mapping_t) std_map"
  mappings_decomposed_by_codepage :: "(u16, code_page_mapping_t) std_map"
  aliases_normalized_by_codepage :: "(u16, code_page_mapping_t) std_map"
  aliases_decomposed_by_codepage :: "(u16, code_page_mapping_t) std_map"
  mappings_reverse_by_codepage :: "(u16, code_page_mapping_reverse_t) std_map"
  already_tried :: "u16 list"
  config_loaded :: bool

text \<open>The state of the program at start-up: every table empty.\<close>

definition registry_initial :: registry where
  "registry_initial =
     \<lparr>config_mappings = [], config_aliases = [], config_duplicates = [], mapping_ascii = [],
      decomposition_rules = [], mappings_normalized_by_codepage = [],
      mappings_decomposed_by_codepage = [], aliases_normalized_by_codepage = [],
      aliases_decomposed_by_codepage = [], mappings_reverse_by_codepage = [],
      already_tried = [], config_loaded = False\<rparr>"

section \<open>Decomposition\<close>

text \<open>
  The \<^verbatim>\<open>while\<close> loop of \<^verbatim>\<open>Grapheme::Decompose\<close>. It runs for as long as the
  current code point has a rule, so it need not terminate: not returning is \<^term>\<open>None\<close>.
  \<^verbatim>\<open>AddMark\<close> may invalidate the grapheme, which sets the code point to \<^verbatim>\<open>'?'\<close>;
  the loop goes on from there.
\<close>

partial_function (option) Decompose_loop ::
  "decomposition_rules_t \<Rightarrow> grapheme \<Rightarrow> grapheme option" where
  "Decompose_loop rules g =
     (case smap_find (<) rules (code_point g) of
        None \<Rightarrow> Some g
      | Some rule \<Rightarrow>
          Decompose_loop rules (foldl AddMark (g\<lparr>code_point := code_point rule\<rparr>) (marks rule)))"

declare Decompose_loop.simps [code]

definition Decompose :: "decomposition_rules_t \<Rightarrow> grapheme \<Rightarrow> grapheme option" where
  "Decompose rules g =
     (if \<not> is_valid g \<or> is_empty g then Some g else Decompose_loop rules g)"

section \<open>Conversion routines\<close>

subsection \<open>\<^verbatim>\<open>utf8_to_wide\<close>\<close>

text \<open>
  The lambda \<^verbatim>\<open>advance\<close>: it skips at most \<open>counter\<close> continuation bytes that follow
  position \<open>i\<close>. The result is the number of times it runs \<^verbatim>\<open>++i\<close>; it always clears
  the status.
\<close>

fun advance_loop :: "nat \<Rightarrow> u8 list \<Rightarrow> nat" where
  "advance_loop 0 rest = 0"
| "advance_loop (Suc counter) [] = 0"
| "advance_loop (Suc counter) (byte_next # rest) =
     (if byte_next < decode_threshold_non_ascii \<or> byte_next \<ge> decode_threshold_2_bytes then 0
      else Suc (advance_loop counter rest))"

definition advance :: "u8 list \<Rightarrow> nat \<Rightarrow> nat" where
  "advance rest bytes = advance_loop (min (length rest) bytes) rest"

text \<open>
  One iteration of the \<^verbatim>\<open>for\<close> loop, at a position holding \<open>byte_1\<close> followed by the
  bytes \<open>rest\<close>: the value of \<^verbatim>\<open>code_point\<close> that is pushed (a \<^verbatim>\<open>uint32_t\<close>),
  whether the iteration left the status alone (\<^term>\<open>False\<close>: it cleared it), and how many
  further bytes it consumed by \<^verbatim>\<open>++i\<close>.
\<close>

definition decode_at :: "u8 \<Rightarrow> u8 list \<Rightarrow> u32 \<times> bool \<times> nat" where
  "decode_at byte_1 rest =
     (let remaining = length rest;
          byte_2 = (if remaining \<ge> 1 then rest ! 0 else 0);
          byte_3 = (if remaining \<ge> 2 then rest ! 1 else 0)
      in
      if byte_1 \<ge> decode_threshold_6_bytes then (ucast unknown_character, False, advance rest 5)
      else if byte_1 \<ge> decode_threshold_5_bytes then (ucast unknown_character, False, advance rest 4)
      else if byte_1 \<ge> decode_threshold_4_bytes then (ucast unknown_character, False, advance rest 3)
      else if byte_1 \<ge> decode_threshold_3_bytes then
        (let cp0 = ucast (byte_1 - decode_threshold_3_bytes) :: u32;
             cp1 = push_bit 6 cp0;
             ok2 = (byte_2 \<ge> decode_threshold_non_ascii \<and> byte_2 < decode_threshold_2_bytes);
             cp2 = (if ok2 then cp1 + ucast byte_2 - ucast decode_threshold_non_ascii else cp1);
             cp3 = push_bit 6 cp2;
             ok3 = (byte_2 \<ge> decode_threshold_non_ascii \<and> byte_2 < decode_threshold_2_bytes \<and>
                    byte_3 \<ge> decode_threshold_non_ascii \<and> byte_3 < decode_threshold_2_bytes);
             cp4 = (if ok3 then cp3 + ucast byte_3 - ucast decode_threshold_non_ascii else cp3)
         in (cp4, ok2 \<and> ok3, (if ok2 then 1 else 0) + (if ok3 then 1 else 0)))
      else if byte_1 \<ge> decode_threshold_2_bytes then
        (let cp0 = ucast (byte_1 - decode_threshold_2_bytes) :: u32;
             cp1 = push_bit 6 cp0;
             ok2 = (byte_2 \<ge> decode_threshold_non_ascii \<and> byte_2 < decode_threshold_2_bytes);
             cp2 = (if ok2 then cp1 + ucast byte_2 - ucast decode_threshold_non_ascii else cp1)
         in (cp2, ok2, if ok2 then 1 else 0))
      else if byte_1 < decode_threshold_non_ascii then (ucast byte_1, True, 0)
      else (ucast unknown_character, False, 0))"

text \<open>
  The loop over the input; the result is the output vector and the returned status, which is
  true when no iteration cleared it. The pushed value is narrowed to \<^verbatim>\<open>uint16_t\<close>.
\<close>

fun utf8_to_wide :: "u8 list \<Rightarrow> u16 list \<times> bool" where
  "utf8_to_wide [] = ([], True)"
| "utf8_to_wide (byte_1 # rest) =
     (case decode_at byte_1 rest of
        (cp, ok, consumed) \<Rightarrow>
          (case utf8_to_wide (drop consumed rest) of
             (str_out, status) \<Rightarrow> (ucast cp # str_out, ok \<and> status)))"

subsection \<open>\<^verbatim>\<open>wide_to_utf8\<close>\<close>

definition encode_code_point :: "u16 \<Rightarrow> u8 list" where
  "encode_code_point cp =
     (if cp < encode_threshold_2_bytes then [ucast cp]
      else if cp < encode_threshold_3_bytes then
        [ucast (drop_bit 6 cp OR 0xC0), ucast ((0x3F AND cp) OR 0x80)]
      else
        [ucast (drop_bit 12 cp OR 0xE0), ucast ((0x3F AND drop_bit 6 cp) OR 0x80),
         ucast ((0x3F AND cp) OR 0x80)])"

definition wide_to_utf8 :: "u16 list \<Rightarrow> u8 list" where
  "wide_to_utf8 str_in = concat (map encode_code_point str_in)"

subsection \<open>\<^verbatim>\<open>dos_to_wide\<close>\<close>

text \<open>Unicode code points for screen codes from 0x00 to 0x1f.\<close>

definition codes :: "u16 list" where
  "codes =
     [0x0020, 0x263a, 0x263b, 0x2665, 0x2666, 0x2663, 0x2660, 0x2022,
      0x25d8, 0x25cb, 0x25d9, 0x2642, 0x2640, 0x266a, 0x266b, 0x263c,
      0x25ba, 0x25c4, 0x2195, 0x203c, 0x00b6, 0x00a7, 0x25ac, 0x21a8,
      0x2191, 0x2193, 0x2192, 0x2190, 0x221f, 0x2194, 0x25b2, 0x25bc]"

definition codepoint_7f :: u16 where "codepoint_7f = 0x2302"

text \<open>The body of the loop over the characters: what one byte appends to the output.\<close>

definition dos_to_wide_char :: "registry \<Rightarrow> u16 \<Rightarrow> u16 list \<Rightarrow> u8 \<Rightarrow> u16 list" where
  "dos_to_wide_char st code_page str_out byte =
     (if byte \<ge> decode_threshold_non_ascii then
        (case smap_find (<) (mappings_reverse_by_codepage st) code_page of
           None \<Rightarrow> str_out @ [ucast unknown_character]
         | Some reverse \<Rightarrow>
             (case smap_find (<) reverse byte of
                None \<Rightarrow> str_out @ [ucast unknown_character]
              | Some g \<Rightarrow> PushInto g str_out))
      else if byte = 0x7f then str_out @ [codepoint_7f]
      else if byte \<ge> 0x20 then str_out @ [ucast byte]
      else str_out @ [codes ! unat byte])"

definition dos_to_wide :: "registry \<Rightarrow> u8 list \<Rightarrow> u16 \<Rightarrow> u16 list" where
  "dos_to_wide st str_in code_page = foldl (dos_to_wide_char st code_page) [] str_in"

subsection \<open>\<^verbatim>\<open>wide_to_dos\<close>\<close>

text \<open>
  The four pointers \<^verbatim>\<open>mapping_normalized\<close>, \<^verbatim>\<open>mapping_decomposed\<close>,
  \<^verbatim>\<open>aliases_normalized\<close> and \<^verbatim>\<open>aliases_decomposed\<close>; \<^term>\<open>None\<close> is
  \<^verbatim>\<open>nullptr\<close>.
\<close>

record code_page_tables =
  mapping_normalized :: "code_page_mapping_t option"
  mapping_decomposed :: "code_page_mapping_t option"
  aliases_normalized :: "code_page_mapping_t option"
  aliases_decomposed :: "code_page_mapping_t option"

definition find_tables :: "registry \<Rightarrow> u16 \<Rightarrow> code_page_tables" where
  "find_tables st code_page =
     (if code_page \<noteq> 0 then
        \<lparr>mapping_normalized = smap_find (<) (mappings_normalized_by_codepage st) code_page,
         mapping_decomposed = smap_find (<) (mappings_decomposed_by_codepage st) code_page,
         aliases_normalized = smap_find (<) (aliases_normalized_by_codepage st) code_page,
         aliases_decomposed = smap_find (<) (aliases_decomposed_by_codepage st) code_page\<rparr>
      else
        \<lparr>mapping_normalized = None, mapping_decomposed = None,
         aliases_normalized = None, aliases_decomposed = None\<rparr>)"

text \<open>
  Each \<^verbatim>\<open>push_...\<close> lambda takes the output string and gives it back together with
  the value it returns. \<open>or_else\<close> is the short-circuit \<^verbatim>\<open>||\<close> of two of them.
\<close>

definition or_else ::
  "('s \<Rightarrow> 's \<times> bool) \<Rightarrow> ('s \<Rightarrow> 's \<times> bool) \<Rightarrow> 's \<Rightarrow> 's \<times> bool" where
  "or_else f g s = (case f s of (s', True) \<Rightarrow> (s', True) | (s', False) \<Rightarrow> g s')"

definition push_7bit :: "grapheme \<Rightarrow> u8 list \<Rightarrow> u8 list \<times> bool" where
  "push_7bit g str_out =
     (if HasMark g then (str_out, False)
      else if GetCodePoint g \<ge> ucast decode_threshold_non_ascii then (str_out, False)
      else (str_out @ [ucast (GetCodePoint g)], True))"

definition push_code_page ::
  "code_page_mapping_t option \<Rightarrow> grapheme \<Rightarrow> u8 list \<Rightarrow> u8 list \<times> bool" where
  "push_code_page mapping_ptr g str_out =
     (case mapping_ptr of
        None \<Rightarrow> (str_out, False)
      | Some m \<Rightarrow>
          (case smap_find grapheme_less m g of
             None \<Rightarrow> (str_out, False)
           | Some c \<Rightarrow> (str_out @ [c], True)))"

text \<open>
  \<^verbatim>\<open>mapping_ascii.find(grapheme.GetCodePoint())\<close>: the key is the grapheme that the
  converting constructor makes of the code point.
\<close>

definition push_fallback :: "registry \<Rightarrow> grapheme \<Rightarrow> u8 list \<Rightarrow> u8 list \<times> bool" where
  "push_fallback st g str_out =
     (if HasMark g then (str_out, False)
      else (case smap_find grapheme_less (mapping_ascii st) (Grapheme (GetCodePoint g)) of
              None \<Rightarrow> (str_out, False)
            | Some c \<Rightarrow> (str_out @ [c], True)))"

text \<open>\<^verbatim>\<open>push_unknown\<close> also clears the status; see \<open>convert_grapheme\<close>.\<close>

definition push_unknown :: "u8 list \<Rightarrow> u8 list" where
  "push_unknown str_out = str_out @ [unknown_character]"

definition push_normalized ::
  "registry \<Rightarrow> code_page_tables \<Rightarrow> grapheme \<Rightarrow> u8 list \<Rightarrow> u8 list \<times> bool" where
  "push_normalized st t g =
     or_else (push_7bit g)
       (or_else (push_code_page (mapping_normalized t) g)
          (or_else (push_code_page (aliases_normalized t) g) (push_fallback st g)))"

text \<open>\<^verbatim>\<open>push_decomposed\<close> decomposes a copy; it returns only if that does.\<close>

definition push_decomposed ::
  "registry \<Rightarrow> code_page_tables \<Rightarrow> grapheme \<Rightarrow> u8 list \<Rightarrow> (u8 list \<times> bool) option" where
  "push_decomposed st t g str_out =
     (case Decompose (decomposition_rules st) g of
        None \<Rightarrow> None
      | Some decomposed \<Rightarrow>
          Some (or_else (push_code_page (mapping_decomposed t) decomposed)
                  (push_code_page (aliases_decomposed t) decomposed) str_out))"

text \<open>
  The body of the main loop once the grapheme is assembled; it works on the output string
  and the status.
\<close>

definition convert_grapheme ::
  "registry \<Rightarrow> code_page_tables \<Rightarrow> grapheme \<Rightarrow> u8 list \<times> bool \<Rightarrow> (u8 list \<times> bool) option" where
  "convert_grapheme st t g acc =
     (case acc of (str_out, status) \<Rightarrow>
      (case push_normalized st t g str_out of
         (out1, True) \<Rightarrow> Some (out1, status)
       | (out1, False) \<Rightarrow>
           (case push_decomposed st t g out1 of
              None \<Rightarrow> None
            | Some (out2, True) \<Rightarrow> Some (out2, status)
            | Some (out2, False) \<Rightarrow>
                (case Decompose (decomposition_rules st) g of
                   None \<Rightarrow> None
                 | Some gd \<Rightarrow>
                     if HasMark gd then
                       (case push_normalized st t (StripMarks gd) out2 of
                          (out3, True) \<Rightarrow> Some (out3, status)
                        | (out3, False) \<Rightarrow> Some (push_unknown out3, False))
                     else Some (push_unknown out2, False)))))"

text \<open>
  The main loop: the grapheme at the current position takes the code point there and
  every combining mark that follows directly.
\<close>

function wide_to_dos_loop ::
  "registry \<Rightarrow> code_page_tables \<Rightarrow> u16 list \<Rightarrow> u8 list \<times> bool \<Rightarrow> (u8 list \<times> bool) option" where
  "wide_to_dos_loop st t [] acc = Some acc"
| "wide_to_dos_loop st t (c # rest) acc =
     (case convert_grapheme st t
             (foldl AddMark (Grapheme c) (takeWhile (\<lambda>x. is_combining_mark (ucast x)) rest)) acc of
        None \<Rightarrow> None
      | Some acc' \<Rightarrow>
          wide_to_dos_loop st t (dropWhile (\<lambda>x. is_combining_mark (ucast x)) rest) acc')"
  by pat_completeness auto
termination
  by (relation "measure (\<lambda>(st, t, str_in, acc). length str_in)")
     (auto simp: less_Suc_eq_le length_dropWhile_le)

definition wide_to_dos :: "registry \<Rightarrow> u16 list \<Rightarrow> u16 \<Rightarrow> (u8 list \<times> bool) option" where
  "wide_to_dos st str_in code_page =
     wide_to_dos_loop st (find_tables st code_page) str_in ([], True)"

section \<open>Reading the mapping files\<close>

text \<open>
  A mapping file as \<^verbatim>\<open>open_mapping_file\<close> finds it: it cannot be opened, or it delivers
  its content; the flag tells that reading stops with an input error instead of at the end
  of the file (then \<^verbatim>\<open>fail()\<close> holds and \<^verbatim>\<open>eof()\<close> does not).
\<close>

datatype mapping_file = Unopenable | Opened string bool

text \<open>
  The resources: the file found under \<^verbatim>\<open>GetResourcePath(dir) / name\<close>.
\<close>

type_synonym resources = "string \<Rightarrow> string \<Rightarrow> mapping_file"

definition file_name_main :: string where "file_name_main = ''MAIN.TXT''"
definition file_name_ascii :: string where "file_name_ascii = ''ASCII.TXT''"
definition file_name_decomposition :: string where
  "file_name_decomposition = ''DECOMPOSITION.TXT''"
definition dir_name_mapping :: string where "dir_name_mapping = ''mapping''"

definition end_of_file_marking :: char where "end_of_file_marking = CHR 0x1A"

text \<open>
  Why an import stops; the source logs a message with the file name and the line number and
  returns.
\<close>

datatype import_error =
    CouldNotOpen
  | ErrorParsing
  | NotCombiningMark nat
  | CodePageInvalid
  | CodePageDefined
  | CodePageNone
  | InvalidGrapheme
  | ErrorReading
  | NoEntries

text \<open>The lines that successive calls of \<^verbatim>\<open>std::getline\<close> deliver.\<close>

fun lines_of :: "string \<Rightarrow> string list" where
  "lines_of [] = []"
| "lines_of (c # cs) =
     (if c = CHR 0x0A then [] # lines_of cs
      else (case lines_of cs of [] \<Rightarrow> [[c]] | l # ls \<Rightarrow> (c # l) # ls))"

text \<open>
  \<^verbatim>\<open>get_tokens\<close>: the loop keeps whether a token has started and, instead of
  \<^verbatim>\<open>start_pos\<close>, the characters of the token so far. A \<^verbatim>\<open>#\<close> ends the loop; a
  token that has started then runs to the end of the line, as \<^verbatim>\<open>substr(start_pos)\<close>
  does.
\<close>

definition is_space :: "char \<Rightarrow> bool" where
  "is_space c \<longleftrightarrow> c = CHR '' '' \<or> c = CHR 0x09 \<or> c = CHR 0x0D \<or> c = CHR 0x0A"

fun get_tokens_loop :: "string \<Rightarrow> string option \<Rightarrow> string list \<Rightarrow> string list" where
  "get_tokens_loop [] None tokens = tokens"
| "get_tokens_loop [] (Some token) tokens = tokens @ [token]"
| "get_tokens_loop (c # cs) started tokens =
     (if c = CHR ''#'' then
        (case started of None \<Rightarrow> tokens | Some token \<Rightarrow> tokens @ [token @ c # cs])
      else if is_space c then
        (case started of
           None \<Rightarrow> get_tokens_loop cs None tokens
         | Some token \<Rightarrow> get_tokens_loop cs None (tokens @ [token]))
      else
        (case started of
           None \<Rightarrow> get_tokens_loop cs (Some [c]) tokens
         | Some token \<Rightarrow> get_tokens_loop cs (Some (token @ [c])) tokens))"

text \<open>The tokens of a line; the source returns whether there is any.\<close>

definition get_tokens :: "string \<Rightarrow> string list" where
  "get_tokens line = get_tokens_loop line None []"

text \<open>\<^verbatim>\<open>isxdigit\<close> and \<^verbatim>\<open>strtoul\<close> with base 16, on the digits that were checked.\<close>

definition isxdigit :: "char \<Rightarrow> bool" where
  "isxdigit c \<longleftrightarrow>
     (CHR ''0'' \<le> c \<and> c \<le> CHR ''9'') \<or> (CHR ''a'' \<le> c \<and> c \<le> CHR ''f'') \<or>
     (CHR ''A'' \<le> c \<and> c \<le> CHR ''F'')"

definition hex_digit_value :: "char \<Rightarrow> int" where
  "hex_digit_value c =
     (if CHR ''0'' \<le> c \<and> c \<le> CHR ''9'' then of_char c - of_char CHR ''0''
      else if CHR ''a'' \<le> c \<and> c \<le> CHR ''f'' then of_char c - of_char CHR ''a'' + 10
      else of_char c - of_char CHR ''A'' + 10)"

definition strtoul_16 :: "string \<Rightarrow> int" where
  "strtoul_16 digits = foldl (\<lambda>acc c. acc * 16 + hex_digit_value c) 0 digits"

definition get_hex_8bit :: "string \<Rightarrow> u8 option" where
  "get_hex_8bit token =
     (if length token \<noteq> 4 \<or> token ! 0 \<noteq> CHR ''0'' \<or> token ! 1 \<noteq> CHR ''x'' \<or>
         \<not> isxdigit (token ! 2) \<or> \<not> isxdigit (token ! 3)
      then None
      else Some (of_int (strtoul_16 (drop 2 token))))"

definition get_hex_16bit :: "string \<Rightarrow> u16 option" where
  "get_hex_16bit token =
     (if length token \<noteq> 6 \<or> token ! 0 \<noteq> CHR ''0'' \<or> token ! 1 \<noteq> CHR ''x'' \<or>
         \<not> isxdigit (token ! 2) \<or> \<not> isxdigit (token ! 3) \<or>
         \<not> isxdigit (token ! 4) \<or> \<not> isxdigit (token ! 5)
      then None
      else Some (of_int (strtoul_16 (drop 2 token))))"

definition get_ascii :: "string \<Rightarrow> u8 option" where
  "get_ascii token =
     (if length token = 1 then Some (of_char (token ! 0))
      else if token = ''SPC'' then Some (of_char CHR '' '')
      else if token = ''HSH'' then Some (of_char CHR ''#'')
      else if token = ''NNN'' then Some unknown_character
      else None)"

text \<open>\<^verbatim>\<open>std::atoi\<close> on a token of at most five decimal digits.\<close>

definition atoi_digits :: "string \<Rightarrow> int" where
  "atoi_digits token = foldl (\<lambda>acc c. acc * 10 + (of_char c - of_char CHR ''0'')) 0 token"

definition get_code_page :: "string \<Rightarrow> u16 option" where
  "get_code_page token =
     (if token = [] \<or> length token > 5 then None
      else if list_ex (\<lambda>character. character < CHR ''0'' \<or> character > CHR ''9'') token then None
      else if atoi_digits token < 1 \<or> atoi_digits token > 65535 then None
      else Some (of_int (atoi_digits token)))"

definition get_grapheme :: "string list \<Rightarrow> grapheme option" where
  "get_grapheme tokens =
     (if length tokens < 2 then None
      else (case get_hex_16bit (tokens ! 1) of
              None \<Rightarrow> None
            | Some cp \<Rightarrow>
                if length tokens \<ge> 3 then
                  (case get_hex_16bit (tokens ! 2) of
                     None \<Rightarrow> None
                   | Some mark_1 \<Rightarrow>
                       if length tokens \<ge> 4 then
                         (case get_hex_16bit (tokens ! 3) of
                            None \<Rightarrow> None
                          | Some mark_2 \<Rightarrow> Some (AddMark (AddMark (Grapheme cp) mark_1) mark_2))
                       else Some (AddMark (Grapheme cp) mark_1))
                else Some (Grapheme cp)))"

text \<open>
  The loop \<^verbatim>\<open>while (get_line(...)) { if (!get_tokens(...)) continue; ... }\<close> that every
  import runs, over the lines of the file. \<^verbatim>\<open>get_line\<close> skips empty lines and stops at
  a line that starts with the end-of-file marking, or when \<^verbatim>\<open>std::getline\<close> fails.
  \<open>body\<close> is the rest of the loop body: it works on the tokens of the line and the tables
  read so far, and its error is the \<^verbatim>\<open>return\<close> out of the import. The line numbers
  serve the log only and are left out.
\<close>

datatype read_end = GetlineFailed | EndMarking

fun read_loop ::
  "(string list \<Rightarrow> 's \<Rightarrow> import_error + 's) \<Rightarrow> string list \<Rightarrow> 's \<Rightarrow> import_error + 's \<times> read_end"
  where
  "read_loop body [] s = Inr (s, GetlineFailed)"
| "read_loop body (line_str # rest) s =
     (if length line_str \<ge> 1 \<and> line_str ! 0 = end_of_file_marking then Inr (s, EndMarking)
      else if line_str = [] then read_loop body rest s
      else if get_tokens line_str = [] then read_loop body rest s
      else (case body (get_tokens line_str) s of
              Inl e \<Rightarrow> Inl e
            | Inr s' \<Rightarrow> read_loop body rest s'))"

text \<open>
  \<^verbatim>\<open>check_import_status\<close>; \<open>failed\<close> is \<^verbatim>\<open>in_file.fail() && !in_file.eof()\<close>.
\<close>

definition check_import_status :: "bool \<Rightarrow> bool \<Rightarrow> import_error option" where
  "check_import_status failed is_empty_file =
     (if failed then Some ErrorReading else if is_empty_file then Some NoEntries else None)"

definition stream_failed :: "read_end \<Rightarrow> bool \<Rightarrow> bool" where
  "stream_failed ended input_error \<longleftrightarrow> ended = GetlineFailed \<and> input_error"

text \<open>
  An import as a whole: open the file, run the loop from the empty tables \<open>init\<close>, check
  the status (\<open>no_entries\<close> tells whether the tables read count as empty). It yields the tables read, or the reason for which the import returned early.
\<close>

definition read_file ::
  "(string list \<Rightarrow> 's \<Rightarrow> import_error + 's) \<Rightarrow> 's \<Rightarrow> ('s \<Rightarrow> bool) \<Rightarrow> mapping_file \<Rightarrow>
   import_error + 's" where
  "read_file body init no_entries in_file =
     (case in_file of
        Unopenable \<Rightarrow> Inl CouldNotOpen
      | Opened content input_error \<Rightarrow>
          (case read_loop body (lines_of content) init of
             Inl e \<Rightarrow> Inl e
           | Inr (s, ended) \<Rightarrow>
               (case check_import_status (stream_failed ended input_error) (no_entries s) of
                  Some e \<Rightarrow> Inl e
                | None \<Rightarrow> Inr s)))"

subsection \<open>\<^verbatim>\<open>import_mapping_code_page\<close>\<close>

text \<open>The loop body after the tokens are split; it works on \<^verbatim>\<open>new_mapping\<close>.\<close>

definition mapping_code_page_line ::
  "string list \<Rightarrow> code_page_mapping_reverse_t \<Rightarrow> import_error + code_page_mapping_reverse_t"
  where
  "mapping_code_page_line tokens new_mapping =
     (case get_hex_8bit (tokens ! 0) of
        None \<Rightarrow> Inl ErrorParsing
      | Some character_code \<Rightarrow>
          if length tokens = 1 then
            (if character_code \<ge> decode_threshold_non_ascii
             then Inr (fst (add_if_not_mapped (<) new_mapping character_code Grapheme_default))
             else Inr new_mapping)
          else if length tokens \<le> 4 then
            (if character_code \<ge> decode_threshold_non_ascii then
               (case get_grapheme tokens of
                  None \<Rightarrow> Inl ErrorParsing
                | Some g \<Rightarrow>
                    (case add_if_not_mapped (<) new_mapping character_code g of
                       (m, was_added) \<Rightarrow>
                         if was_added \<and> \<not> IsValid g then Inl InvalidGrapheme else Inr m))
             else Inr new_mapping)
          else Inl ErrorParsing)"

text \<open>
  The source returns a flag and assigns the reference parameter only on success; here the
  result is the mapping read, or the error.
\<close>

definition import_mapping_code_page ::
  "mapping_file \<Rightarrow> import_error + code_page_mapping_reverse_t" where
  "import_mapping_code_page in_file =
     read_file mapping_code_page_line [] (\<lambda>new_mapping. new_mapping = []) in_file"

subsection \<open>\<^verbatim>\<open>import_config_main\<close>\<close>

text \<open>The local variables of the function that the loop changes.\<close>

record config_main_locals =
  file_empty :: bool
  curent_code_page :: u16
  new_config_mappings :: config_mappings_t
  new_config_duplicates :: config_duplicates_t
  new_config_aliases :: config_aliases_t

definition config_main_locals_initial :: config_main_locals where
  "config_main_locals_initial =
     \<lparr>file_empty = True, curent_code_page = 0, new_config_mappings = [],
      new_config_duplicates = [], new_config_aliases = []\<rparr>"

text \<open>The lambda \<^verbatim>\<open>check_no_code_page\<close>.\<close>

definition check_no_code_page :: "config_main_locals \<Rightarrow> u16 \<Rightarrow> bool" where
  "check_no_code_page s code_page \<longleftrightarrow>
     \<not> ((case smap_find (<) (new_config_mappings s) code_page of
            None \<Rightarrow> False
          | Some entry \<Rightarrow> valid entry) \<or>
         smap_count (<) (new_config_duplicates s) code_page)"

text \<open>\<^verbatim>\<open>new_config_mappings[code_page]\<close> followed by a change \<open>f\<close> of the entry.\<close>

definition change_entry ::
  "config_main_locals \<Rightarrow> u16 \<Rightarrow> (ConfigMappingEntry \<Rightarrow> ConfigMappingEntry) \<Rightarrow> config_main_locals"
  where
  "change_entry s code_page f =
     s\<lparr>new_config_mappings :=
         smap_modify (<) ConfigMappingEntry_default f (new_config_mappings s) code_page\<rparr>"

definition config_main_alias :: "string list \<Rightarrow> config_main_locals \<Rightarrow> import_error + config_main_locals"
  where
  "config_main_alias tokens s =
     (if (length tokens \<noteq> 3 \<and> length tokens \<noteq> 4) \<or>
         (length tokens = 4 \<and> tokens ! 3 \<noteq> ''BIDIRECTIONAL'')
      then Inl ErrorParsing
      else (case get_hex_16bit (tokens ! 1) of
              None \<Rightarrow> Inl ErrorParsing
            | Some code_point_1 \<Rightarrow>
                (case get_hex_16bit (tokens ! 2) of
                   None \<Rightarrow> Inl ErrorParsing
                 | Some code_point_2 \<Rightarrow>
                     Inr (s\<lparr>new_config_aliases :=
                              new_config_aliases s @ [(code_point_1, code_point_2)] @
                              (if length tokens = 4 then [(code_point_2, code_point_1)] else []),
                            curent_code_page := 0\<rparr>))))"

definition config_main_codepage ::
  "string list \<Rightarrow> config_main_locals \<Rightarrow> import_error + config_main_locals" where
  "config_main_codepage tokens s =
     (if length tokens = 4 \<and> tokens ! 2 = ''DUPLICATES'' then
        (case get_code_page (tokens ! 1) of
           None \<Rightarrow> Inl CodePageInvalid
         | Some code_page_1 \<Rightarrow>
             (case get_code_page (tokens ! 3) of
                None \<Rightarrow> Inl CodePageInvalid
              | Some code_page_2 \<Rightarrow>
                  if \<not> check_no_code_page s code_page_1 then Inl CodePageDefined
                  else Inr (s\<lparr>new_config_duplicates :=
                                smap_assign (<) (new_config_duplicates s) code_page_1 code_page_2,
                              curent_code_page := 0\<rparr>)))
      else if length tokens \<noteq> 2 then Inl CodePageInvalid
      else (case get_code_page (tokens ! 1) of
              None \<Rightarrow> Inl CodePageInvalid
            | Some code_page \<Rightarrow>
                if \<not> check_no_code_page s code_page then Inl CodePageDefined
                else Inr ((change_entry s code_page (\<lambda>entry. entry\<lparr>valid := True\<rparr>))
                            \<lparr>curent_code_page := code_page\<rparr>)))"

definition config_main_extends ::
  "string list \<Rightarrow> config_main_locals \<Rightarrow> import_error + config_main_locals" where
  "config_main_extends tokens s =
     (if curent_code_page s = 0 then Inl CodePageNone
      else if length tokens = 3 \<and> tokens ! 1 = ''CODEPAGE'' then
        (case get_code_page (tokens ! 2) of
           None \<Rightarrow> Inl CodePageInvalid
         | Some code_page \<Rightarrow>
             Inr ((change_entry s (curent_code_page s)
                     (\<lambda>entry. entry\<lparr>extends_code_page := code_page\<rparr>))
                   \<lparr>curent_code_page := 0\<rparr>))
      else if length tokens = 4 \<and> tokens ! 1 = ''FILE'' then
        Inr ((change_entry s (curent_code_page s)
                (\<lambda>entry. entry\<lparr>extends_dir := tokens ! 2, extends_file := tokens ! 3\<rparr>))
              \<lparr>file_empty := False, curent_code_page := 0\<rparr>)
      else Inl ErrorParsing)"

text \<open>
  A line that starts with a character code. \<^verbatim>\<open>new_mapping\<close> refers to
  \<^verbatim>\<open>new_config_mappings[curent_code_page].mapping\<close>.
\<close>

definition config_main_character ::
  "u8 \<Rightarrow> string list \<Rightarrow> config_main_locals \<Rightarrow> import_error + config_main_locals" where
  "config_main_character character_code tokens s =
     (if curent_code_page s = 0 then Inl CodePageNone
      else if length tokens = 1 then
        (if character_code \<ge> decode_threshold_non_ascii then
           Inr ((change_entry s (curent_code_page s)
                   (\<lambda>entry. entry\<lparr>mapping :=
                      fst (add_if_not_mapped (<) (mapping entry) character_code Grapheme_default)\<rparr>))
                 \<lparr>file_empty := False\<rparr>)
         else Inr (change_entry s (curent_code_page s) (\<lambda>entry. entry)))
      else if length tokens \<le> 4 then
        (if character_code \<ge> decode_threshold_non_ascii then
           (case get_grapheme tokens of
              None \<Rightarrow> Inl ErrorParsing
            | Some g \<Rightarrow>
                if \<not> IsValid g then Inl InvalidGrapheme
                else Inr ((change_entry s (curent_code_page s)
                             (\<lambda>entry. entry\<lparr>mapping :=
                                fst (add_if_not_mapped (<) (mapping entry) character_code g)\<rparr>))
                           \<lparr>file_empty := False\<rparr>))
         else Inr (change_entry s (curent_code_page s) (\<lambda>entry. entry)))
      else Inl ErrorParsing)"

definition config_main_line ::
  "string list \<Rightarrow> config_main_locals \<Rightarrow> import_error + config_main_locals" where
  "config_main_line tokens s =
     (if tokens ! 0 = ''ALIAS'' then config_main_alias tokens s
      else if tokens ! 0 = ''CODEPAGE'' then config_main_codepage tokens s
      else if tokens ! 0 = ''EXTENDS'' then config_main_extends tokens s
      else (case get_hex_8bit (tokens ! 0) of
              Some character_code \<Rightarrow> config_main_character character_code tokens s
            | None \<Rightarrow> Inl ErrorParsing))"

text \<open>What the function has read when it reaches its last three assignments.\<close>

definition read_config_main :: "mapping_file \<Rightarrow> import_error + config_main_locals" where
  "read_config_main in_file =
     read_file config_main_line config_main_locals_initial file_empty in_file"

definition import_config_main :: "mapping_file \<Rightarrow> registry \<Rightarrow> registry" where
  "import_config_main in_file st =
     (case read_config_main in_file of
        Inl e \<Rightarrow> st
      | Inr s \<Rightarrow>
          st\<lparr>config_mappings := new_config_mappings s,
             config_duplicates := new_config_duplicates s,
             config_aliases := new_config_aliases s\<rparr>)"

subsection \<open>\<^verbatim>\<open>import_decomposition\<close>\<close>

text \<open>
  The inner loop over the tokens from index 2 on; \<open>idx\<close> is the index of the first of the
  tokens left.
\<close>

fun decomposition_marks ::
  "u16 \<Rightarrow> string list \<Rightarrow> nat \<Rightarrow> decomposition_rules_t \<Rightarrow> import_error + decomposition_rules_t"
  where
  "decomposition_marks code_point_1 [] idx new_rules = Inr new_rules"
| "decomposition_marks code_point_1 (token # tokens) idx new_rules =
     (case get_hex_16bit token of
        None \<Rightarrow> Inl ErrorParsing
      | Some code_point_2 \<Rightarrow>
          if \<not> is_combining_mark (ucast code_point_2) then Inl (NotCombiningMark (idx + 1))
          else decomposition_marks code_point_1 tokens (idx + 1)
                 (smap_modify (<) Grapheme_default (\<lambda>g. AddMark g code_point_2)
                    new_rules code_point_1))"

definition decomposition_line ::
  "string list \<Rightarrow> decomposition_rules_t \<Rightarrow> import_error + decomposition_rules_t" where
  "decomposition_line tokens new_rules =
     (if length tokens < 3 then Inl ErrorParsing
      else (case get_hex_16bit (tokens ! 0) of
              None \<Rightarrow> Inl ErrorParsing
            | Some code_point_1 \<Rightarrow>
                (case get_hex_16bit (tokens ! 1) of
                   None \<Rightarrow> Inl ErrorParsing
                 | Some code_point_2 \<Rightarrow>
                     decomposition_marks code_point_1 (drop 2 tokens) 2
                       (smap_assign (<) new_rules code_point_1 (Grapheme code_point_2)))))"

definition read_decomposition :: "mapping_file \<Rightarrow> import_error + decomposition_rules_t" where
  "read_decomposition in_file =
     read_file decomposition_line [] (\<lambda>new_rules. new_rules = []) in_file"

definition import_decomposition :: "mapping_file \<Rightarrow> registry \<Rightarrow> registry" where
  "import_decomposition in_file st =
     (case read_decomposition in_file of
        Inl e \<Rightarrow> st
      | Inr new_rules \<Rightarrow> st\<lparr>decomposition_rules := new_rules\<rparr>)"

subsection \<open>\<^verbatim>\<open>import_mapping_ascii\<close>\<close>

text \<open>
  \<^verbatim>\<open>new_mapping_ascii[code_point] = character\<close>: the key is the grapheme that the
  converting constructor makes of the code point.
\<close>

definition mapping_ascii_line ::
  "string list \<Rightarrow> code_page_mapping_t \<Rightarrow> import_error + code_page_mapping_t" where
  "mapping_ascii_line tokens new_mapping_ascii =
     (if length tokens \<noteq> 2 then Inl ErrorParsing
      else (case get_hex_16bit (tokens ! 0) of
              None \<Rightarrow> Inl ErrorParsing
            | Some cp \<Rightarrow>
                (case get_ascii (tokens ! 1) of
                   None \<Rightarrow> Inl ErrorParsing
                 | Some character \<Rightarrow>
                     Inr (smap_assign grapheme_less new_mapping_ascii (Grapheme cp) character))))"

definition read_mapping_ascii :: "mapping_file \<Rightarrow> import_error + code_page_mapping_t" where
  "read_mapping_ascii in_file =
     read_file mapping_ascii_line [] (\<lambda>new_mapping_ascii. new_mapping_ascii = []) in_file"

definition import_mapping_ascii :: "mapping_file \<Rightarrow> registry \<Rightarrow> registry" where
  "import_mapping_ascii in_file st =
     (case read_mapping_ascii in_file of
        Inl e \<Rightarrow> st
      | Inr new_mapping_ascii \<Rightarrow> st\<lparr>mapping_ascii := new_mapping_ascii\<rparr>)"

section \<open>Preparing a code page\<close>

definition deduplicate_code_page :: "registry \<Rightarrow> u16 \<Rightarrow> u16" where
  "deduplicate_code_page st code_page =
     (case smap_find (<) (config_duplicates st) code_page of
        None \<Rightarrow> code_page
      | Some other \<Rightarrow> other)"

text \<open>
  \<^verbatim>\<open>construct_decomposed\<close>: the loop over the entries of \<open>normalized\<close> in the order of
  the map. It returns only if every \<^verbatim>\<open>Decompose\<close> does.
\<close>

fun construct_decomposed_loop ::
  "decomposition_rules_t \<Rightarrow> code_page_mapping_t \<Rightarrow> code_page_mapping_t \<Rightarrow>
   code_page_mapping_t option" where
  "construct_decomposed_loop rules [] decomposed = Some decomposed"
| "construct_decomposed_loop rules ((g, character_code) # normalized) decomposed =
     (case Decompose rules g of
        None \<Rightarrow> None
      | Some tmp \<Rightarrow>
          if grapheme_eq g tmp then construct_decomposed_loop rules normalized decomposed
          else construct_decomposed_loop rules normalized
                 (smap_assign grapheme_less decomposed tmp character_code))"

definition construct_decomposed ::
  "decomposition_rules_t \<Rightarrow> code_page_mapping_t \<Rightarrow> code_page_mapping_t option" where
  "construct_decomposed rules normalized = construct_decomposed_loop rules normalized []"

text \<open>
  The lambda \<^verbatim>\<open>add_to_mappings\<close> of \<^verbatim>\<open>construct_mapping\<close>; it works on the pair
  of \<^verbatim>\<open>new_mapping\<close> and \<^verbatim>\<open>new_mapping_reverse\<close>.
\<close>

definition add_to_mappings ::
  "u8 \<Rightarrow> grapheme \<Rightarrow> code_page_mapping_t \<times> code_page_mapping_reverse_t \<Rightarrow>
   code_page_mapping_t \<times> code_page_mapping_reverse_t" where
  "add_to_mappings first second maps =
     (case maps of (new_mapping, new_mapping_reverse) \<Rightarrow>
        if first < decode_threshold_non_ascii then maps
        else (case add_if_not_mapped (<) new_mapping_reverse first second of
                (reverse', was_added) \<Rightarrow>
                  if \<not> was_added then (new_mapping, reverse')
                  else if IsEmpty second \<or> \<not> IsValid second then (new_mapping, reverse')
                  else (fst (add_if_not_mapped grapheme_less new_mapping second first), reverse')))"

text \<open>The entries of a reverse mapping, added in the order of the map.\<close>

definition add_reverse_entries ::
  "code_page_mapping_reverse_t \<Rightarrow> code_page_mapping_t \<times> code_page_mapping_reverse_t \<Rightarrow>
   code_page_mapping_t \<times> code_page_mapping_reverse_t" where
  "add_reverse_entries entries maps =
     foldl (\<lambda>m entry. add_to_mappings (fst entry) (snd entry) m) maps entries"

text \<open>The entries of a mapping of another code page, added in the order of the map.\<close>

definition add_forward_entries ::
  "code_page_mapping_t \<Rightarrow> code_page_mapping_t \<times> code_page_mapping_reverse_t \<Rightarrow>
   code_page_mapping_t \<times> code_page_mapping_reverse_t" where
  "add_forward_entries entries maps =
     foldl (\<lambda>m entry. add_to_mappings (snd entry) (fst entry) m) maps entries"

text \<open>\<^verbatim>\<open>m[k]\<close> read as a value: the entry, or the default value that the access creates.\<close>

definition smap_at :: "('k \<Rightarrow> 'k \<Rightarrow> bool) \<Rightarrow> 'v \<Rightarrow> ('k, 'v) std_map \<Rightarrow> 'k \<Rightarrow> 'v" where
  "smap_at lt d m k = (case smap_find lt m k of None \<Rightarrow> d | Some v \<Rightarrow> v)"

text \<open>
  The part of \<^verbatim>\<open>construct_mapping\<close> after the entries of the extended code page are
  copied: the external mapping file, the assignments to the global tables and the decomposed
  mapping.
\<close>

definition construct_mapping_finish ::
  "resources \<Rightarrow> registry \<Rightarrow> u16 \<Rightarrow> ConfigMappingEntry \<Rightarrow>
   code_page_mapping_t \<times> code_page_mapping_reverse_t \<Rightarrow> (registry \<times> bool) option" where
  "construct_mapping_finish files st code_page config_mapping maps =
     (case (if extends_file config_mapping \<noteq> [] then
              (case import_mapping_code_page
                      (files (extends_dir config_mapping) (extends_file config_mapping)) of
                 Inl e \<Rightarrow> None
               | Inr mapping_file \<Rightarrow> Some (add_reverse_entries mapping_file maps))
            else Some maps) of
        None \<Rightarrow> Some (st, False)
      | Some (new_mapping, new_mapping_reverse) \<Rightarrow>
          (case construct_decomposed (decomposition_rules st) new_mapping of
             None \<Rightarrow> None
           | Some decomposed \<Rightarrow>
               Some (st\<lparr>mappings_normalized_by_codepage :=
                          smap_assign (<) (mappings_normalized_by_codepage st) code_page new_mapping,
                        mappings_reverse_by_codepage :=
                          smap_assign (<) (mappings_reverse_by_codepage st) code_page
                            new_mapping_reverse,
                        mappings_decomposed_by_codepage :=
                          smap_assign (<) (mappings_decomposed_by_codepage st) code_page
                            decomposed\<rparr>,
                     True)))"

text \<open>The loop of \<^verbatim>\<open>construct_aliases\<close> over \<^verbatim>\<open>config_aliases\<close>.\<close>

fun construct_aliases_loop ::
  "code_page_mapping_t \<Rightarrow> config_aliases_t \<Rightarrow> code_page_mapping_t \<Rightarrow> code_page_mapping_t" where
  "construct_aliases_loop normalized [] aliases = aliases"
| "construct_aliases_loop normalized (alias # rest) aliases =
     (if \<not> smap_count grapheme_less normalized (Grapheme (fst alias)) \<and>
         smap_count grapheme_less normalized (Grapheme (snd alias)) \<and>
         \<not> smap_count grapheme_less aliases (Grapheme (fst alias))
      then construct_aliases_loop normalized rest
             (smap_assign grapheme_less aliases (Grapheme (fst alias))
                (smap_at grapheme_less 0 normalized (Grapheme (snd alias))))
      else construct_aliases_loop normalized rest aliases)"

definition construct_aliases :: "registry \<Rightarrow> u16 \<Rightarrow> registry option" where
  "construct_aliases st code_page =
     (let normalized = smap_at (<) [] (mappings_normalized_by_codepage st) code_page;
          aliases = construct_aliases_loop normalized (config_aliases st)
                      (smap_at (<) [] (aliases_normalized_by_codepage st) code_page)
      in case construct_decomposed (decomposition_rules st) aliases of
           None \<Rightarrow> None
         | Some decomposed \<Rightarrow>
             Some (st\<lparr>aliases_normalized_by_codepage :=
                        smap_assign (<) (aliases_normalized_by_codepage st) code_page aliases,
                      aliases_decomposed_by_codepage :=
                        smap_assign (<) (aliases_decomposed_by_codepage st) code_page
                          decomposed\<rparr>))"

text \<open>The three \<^verbatim>\<open>erase\<close> calls of \<^verbatim>\<open>prepare_code_page\<close> when it fails.\<close>

definition erase_code_page :: "registry \<Rightarrow> u16 \<Rightarrow> registry" where
  "erase_code_page st code_page =
     st\<lparr>mappings_normalized_by_codepage :=
          smap_erase (<) (mappings_normalized_by_codepage st) code_page,
        mappings_decomposed_by_codepage :=
          smap_erase (<) (mappings_decomposed_by_codepage st) code_page,
        mappings_reverse_by_codepage :=
          smap_erase (<) (mappings_reverse_by_codepage st) code_page\<rparr>"

text \<open>
  \<^verbatim>\<open>prepare_code_page\<close> and \<^verbatim>\<open>construct_mapping\<close> call each other. Both return the
  new state and their flag; \<^term>\<open>None\<close> means that a \<^verbatim>\<open>Decompose\<close> on the way does
  not return. \<^verbatim>\<open>construct_mapping\<close> is called only for a code page that
  \<^verbatim>\<open>config_mappings\<close> has, as its first assert says; the entry is read with
  \<^verbatim>\<open>config_mappings[code_page]\<close>.
\<close>

function prepare_code_page :: "resources \<Rightarrow> registry \<Rightarrow> u16 \<Rightarrow> (registry \<times> bool) option"
  and construct_mapping :: "resources \<Rightarrow> registry \<Rightarrow> u16 \<Rightarrow> (registry \<times> bool) option" where
  "prepare_code_page files st code_page =
     (if smap_count (<) (mappings_normalized_by_codepage st) code_page then Some (st, True)
      else if \<not> smap_count (<) (config_mappings st) code_page
        then Some (erase_code_page st code_page, False)
      else (case construct_mapping files st code_page of
              None \<Rightarrow> None
            | Some (st', ok) \<Rightarrow>
                if \<not> ok then Some (erase_code_page st' code_page, False)
                else (case construct_aliases st' code_page of
                        None \<Rightarrow> None
                      | Some st'' \<Rightarrow> Some (st'', True))))"
| "construct_mapping files st code_page =
     (if code_page \<in> set (already_tried st) then Some (st, False)
      else
        let st1 = st\<lparr>already_tried := code_page # already_tried st\<rparr>;
            config_mapping = smap_at (<) ConfigMappingEntry_default (config_mappings st1) code_page;
            maps = add_reverse_entries (mapping config_mapping) ([], [])
        in
        if extends_code_page config_mapping \<noteq> 0 then
          (let dependency = deduplicate_code_page st1 (extends_code_page config_mapping)
           in case prepare_code_page files st1 dependency of
                None \<Rightarrow> None
              | Some (st2, ok) \<Rightarrow>
                  if \<not> ok then Some (st2, False)
                  else construct_mapping_finish files st2 code_page config_mapping
                         (add_forward_entries
                            (smap_at (<) [] (mappings_normalized_by_codepage st2) dependency)
                            maps))
        else construct_mapping_finish files st1 code_page config_mapping maps)"
  by pat_completeness auto

text \<open>
  Both terminate: \<^verbatim>\<open>construct_mapping\<close> calls \<^verbatim>\<open>prepare_code_page\<close> only after it
  has put a code page into \<^verbatim>\<open>already_tried\<close> that was not there, and there are
  finitely many code pages.
\<close>

lemma untried_decreases:
  assumes "code_page \<notin> set tried"
  shows "card (UNIV - set (code_page # tried)) < card (UNIV - set (tried :: u16 list))"
proof -
  have e: "UNIV - set (code_page # tried) = (UNIV - set tried) - {code_page}" by auto
  have "code_page \<in> UNIV - set tried" using assms by simp
  then have "card ((UNIV - set tried) - {code_page}) < card (UNIV - set tried)"
    by (intro card_Diff1_less) simp_all
  then show ?thesis unfolding e .
qed

termination prepare_code_page
  apply (relation "measure (\<lambda>x. case x of
            Inl (files, st, cp) \<Rightarrow> 2 * card (UNIV - set (already_tried st)) + 1
          | Inr (files, st, cp) \<Rightarrow> 2 * card (UNIV - set (already_tried st)))")
    apply simp
   apply simp
  using untried_decreases apply fastforce
  done

declare prepare_code_page.simps [simp del] construct_mapping.simps [simp del]

section \<open>The external interface\<close>

definition load_config_if_needed :: "resources \<Rightarrow> registry \<Rightarrow> registry" where
  "load_config_if_needed files st =
     (if \<not> config_loaded st then
        (import_config_main (files dir_name_mapping file_name_main)
           (import_mapping_ascii (files dir_name_mapping file_name_ascii)
              (import_decomposition (files dir_name_mapping file_name_decomposition) st)))
          \<lparr>config_loaded := True\<rparr>
      else st)"

definition default_code_page :: u16 where "default_code_page = 437"

definition get_default_code_page :: "resources \<Rightarrow> registry \<Rightarrow> (registry \<times> u16) option" where
  "get_default_code_page files st =
     (case prepare_code_page files st default_code_page of
        None \<Rightarrow> None
      | Some (st', ok) \<Rightarrow> if \<not> ok then Some (st', 0) else Some (st', default_code_page))"

definition get_custom_code_page ::
  "resources \<Rightarrow> registry \<Rightarrow> u16 \<Rightarrow> (registry \<times> u16) option" where
  "get_custom_code_page files st custom_code_page =
     (if custom_code_page = 0 then Some (st, 0)
      else (case prepare_code_page files st (deduplicate_code_page st custom_code_page) of
              None \<Rightarrow> None
            | Some (st', ok) \<Rightarrow>
                if \<not> ok then get_default_code_page files st'
                else Some (st', deduplicate_code_page st custom_code_page)))"

text \<open>
  The two entry points that take the code page. The result holds the new state of the
  tables, the output string and, for \<^verbatim>\<open>utf8_to_dos\<close>, the returned flag.
\<close>

definition utf8_to_dos ::
  "resources \<Rightarrow> registry \<Rightarrow> u8 list \<Rightarrow> u16 \<Rightarrow> (registry \<times> u8 list \<times> bool) option" where
  "utf8_to_dos files st str_in code_page =
     (case get_custom_code_page files (load_config_if_needed files st) code_page of
        None \<Rightarrow> None
      | Some (st', cp) \<Rightarrow>
          (case utf8_to_wide str_in of
             (str_wide, status1) \<Rightarrow>
               (case wide_to_dos st' str_wide cp of
                  None \<Rightarrow> None
                | Some (str_out, status2) \<Rightarrow> Some (st', str_out, status1 \<and> status2))))"

definition dos_to_utf8 ::
  "resources \<Rightarrow> registry \<Rightarrow> u8 list \<Rightarrow> u16 \<Rightarrow> (registry \<times> u8 list) option" where
  "dos_to_utf8 files st str_in code_page =
     (case get_custom_code_page files (load_config_if_needed files st) code_page of
        None \<Rightarrow> None
      | Some (st', cp) \<Rightarrow> Some (st', wide_to_utf8 (dos_to_wide st' str_in cp)))"

section \<open>Notions used to state the properties\<close>

text \<open>Every invalidated grapheme is this value.\<close>

definition invalid_grapheme :: grapheme where
  "invalid_grapheme =
     \<lparr>code_point = 0x3f, marks = [], marks_sorted = [], is_empty = False, is_valid = False\<rparr>"

text \<open>
  What \<^verbatim>\<open>AddMark\<close> maintains on a valid, non-empty grapheme: \<^verbatim>\<open>marks_sorted\<close> is
  the sorted list of the distinct marks.
\<close>

definition marks_ok :: "grapheme \<Rightarrow> bool" where
  "marks_ok g \<longleftrightarrow>
     is_valid g \<and> \<not> is_empty g \<and> sorted (marks_sorted g) \<and> distinct (marks_sorted g) \<and>
     set (marks_sorted g) = set (marks g)"

text \<open>
  The graphemes a program can build: \<^verbatim>\<open>Grapheme\<close>'s fields are private, so every
  value comes from a constructor followed by calls of the mutating members. \<open>rules\<close> is
  the table \<^verbatim>\<open>decomposition_rules\<close> that \<^verbatim>\<open>Decompose\<close> reads.
\<close>

inductive constructible :: "decomposition_rules_t \<Rightarrow> grapheme \<Rightarrow> bool" for rules where
  default: "constructible rules Grapheme_default"
| from_code_point: "constructible rules (Grapheme cp)"
| invalidate: "constructible rules g \<Longrightarrow> constructible rules (Invalidate g)"
| add_mark: "constructible rules g \<Longrightarrow> constructible rules (AddMark g m)"
| strip_marks: "constructible rules g \<Longrightarrow> constructible rules (StripMarks g)"
| decompose:
    "constructible rules g \<Longrightarrow> Decompose rules g = Some g' \<Longrightarrow> constructible rules g'"

text \<open>The class invariant behind the asserts: only a valid, non-empty grapheme has marks.\<close>

definition marks_imply_valid :: "grapheme \<Rightarrow> bool" where
  "marks_imply_valid g \<longleftrightarrow> (marks_sorted g = [] \<or> (is_valid g \<and> \<not> is_empty g))"

text \<open>
  The graph of the rules: an edge leads from a code point that has a rule to the base code
  point of that rule. The pairs are written target first, so that the relation is the order
  in which the loop descends.
\<close>

definition rule_step :: "decomposition_rules_t \<Rightarrow> (u16 \<times> u16) set" where
  "rule_step rules = {(code_point r, c) | c r. smap_find (<) rules c = Some r}"

definition acyclic_rules :: "decomposition_rules_t \<Rightarrow> bool" where
  "acyclic_rules rules \<longleftrightarrow> acyclic (rule_step rules)"

text \<open>
  Each iteration of the loop either follows an edge of the rule graph, or invalidates the
  grapheme, which happens at most once.
\<close>

definition decompose_order :: "decomposition_rules_t \<Rightarrow> (grapheme \<times> grapheme) set" where
  "decompose_order rules =
     inv_image (less_than <*lex*> rule_step rules)
       (\<lambda>g. (if is_valid g then 1 else 0 :: nat, code_point g))"

text \<open>A table with one rule, for \<^verbatim>\<open>U+00C1\<close>: the letter A with an acute accent.\<close>

definition example_rules :: decomposition_rules_t where
  "example_rules = [(0x00C1, AddMark (Grapheme 0x0041) 0x0301)]"

text \<open>
  A rule whose base is its own source is a cycle, and on it the loop never ends: the
  hypothesis of acyclicity cannot be dropped.
\<close>

definition cyclic_rules :: decomposition_rules_t where
  "cyclic_rules = [(0x00C1, Grapheme 0x00C1)]"

text \<open>
  The number of graphemes in a sequence of code points, counted without assembling them: a
  grapheme starts at the first code point and at every later code point that is not a
  combining mark; the combining marks that follow a start belong to its grapheme.
\<close>

definition count_graphemes :: "u16 list \<Rightarrow> nat" where
  "count_graphemes str_in =
     (case str_in of
        [] \<Rightarrow> 0
      | c # rest \<Rightarrow> Suc (length (filter (\<lambda>x. \<not> is_combining_mark (ucast x)) rest)))"

text \<open>
  The fallback chain of \<^verbatim>\<open>wide_to_dos\<close> as a list of steps, in the order in which they
  are tried. Each step is the byte that it emits, or \<open>None\<close> when it does not apply. The
  steps are stated on the tables alone, apart from the lambdas of the code and from the
  output string that these thread through.

  The 7-bit shortcut: the grapheme has no marks and its base is below \<^verbatim>\<open>0x80\<close>.
\<close>

definition step_7bit :: "grapheme \<Rightarrow> u8 option" where
  "step_7bit g =
     (if \<not> HasMark g \<and> GetCodePoint g < 0x80 then Some (ucast (GetCodePoint g)) else None)"

text \<open>A lookup in one table of the code page; there is none when the table is missing.\<close>

definition step_code_page :: "code_page_mapping_t option \<Rightarrow> grapheme \<Rightarrow> u8 option" where
  "step_code_page table g =
     (case table of None \<Rightarrow> None | Some m \<Rightarrow> smap_find grapheme_less m g)"

text \<open>The global ASCII fallback: the grapheme has no marks and its base is in the table.\<close>

definition step_ascii :: "registry \<Rightarrow> grapheme \<Rightarrow> u8 option" where
  "step_ascii st g =
     (if HasMark g then None
      else smap_find grapheme_less (mapping_ascii st) (Grapheme (GetCodePoint g)))"

definition normalized_steps :: "registry \<Rightarrow> code_page_tables \<Rightarrow> grapheme \<Rightarrow> u8 option list" where
  "normalized_steps st t g =
     [step_7bit g, step_code_page (mapping_normalized t) g,
      step_code_page (aliases_normalized t) g, step_ascii st g]"

text \<open>
  The whole chain for a grapheme \<open>g\<close> with decomposition \<open>decomposed\<close>: the normalized
  steps, the two lookups of the decomposition and, if the decomposition has marks, the
  normalized steps again with the marks stripped.
\<close>

definition fallback_chain ::
  "registry \<Rightarrow> code_page_tables \<Rightarrow> grapheme \<Rightarrow> grapheme \<Rightarrow> u8 option list" where
  "fallback_chain st t g decomposed =
     normalized_steps st t g @
     [step_code_page (mapping_decomposed t) decomposed,
      step_code_page (aliases_decomposed t) decomposed] @
     (if HasMark decomposed then normalized_steps st t (StripMarks decomposed) else [])"

fun first_success :: "'a option list \<Rightarrow> 'a option" where
  "first_success [] = None"
| "first_success (None # steps) = first_success steps"
| "first_success (Some c # steps) = Some c"

text \<open>
  The byte of the first step that succeeds for a grapheme, \<open>None\<close> when no step does; and
  the byte that is then expected in the output, the unknown-character sentinel in the
  latter case.
\<close>

definition grapheme_byte :: "registry \<Rightarrow> code_page_tables \<Rightarrow> grapheme \<Rightarrow> u8 option" where
  "grapheme_byte st t g =
     first_success (fallback_chain st t g (the (Decompose (decomposition_rules st) g)))"

definition emitted_byte :: "registry \<Rightarrow> code_page_tables \<Rightarrow> grapheme \<Rightarrow> u8" where
  "emitted_byte st t g =
     (case grapheme_byte st t g of Some c \<Rightarrow> c | None \<Rightarrow> unknown_character)"

text \<open>
  The graphemes of a sequence of code points: each starts at a code point and takes the
  run of combining marks that directly follows it.
\<close>

function graphemes :: "u16 list \<Rightarrow> grapheme list" where
  "graphemes [] = []"
| "graphemes (c # rest) =
     foldl AddMark (Grapheme c) (takeWhile (\<lambda>x. is_combining_mark (ucast x)) rest) #
     graphemes (dropWhile (\<lambda>x. is_combining_mark (ucast x)) rest)"
  by pat_completeness auto
termination
  by (relation "measure length") (auto simp: less_Suc_eq_le length_dropWhile_le)

text \<open>What a lambda does to the output string when its step is \<open>r\<close>.\<close>

definition push_result :: "u8 option \<Rightarrow> u8 list \<Rightarrow> u8 list \<times> bool" where
  "push_result r str_out = (case r of Some c \<Rightarrow> (str_out @ [c], True) | None \<Rightarrow> (str_out, False))"

definition example_registry :: registry where
  "example_registry = registry_initial\<lparr>decomposition_rules := example_rules\<rparr>"

text \<open>
  The marks that the inner loop of \<^verbatim>\<open>import_decomposition\<close> accepts: every token
  from index 2 on has to be a code point that is a combining mark.
\<close>

fun mark_tokens :: "string list \<Rightarrow> u16 list option" where
  "mark_tokens [] = Some []"
| "mark_tokens (token # tokens) =
     (case get_hex_16bit token of
        None \<Rightarrow> None
      | Some m \<Rightarrow>
          if \<not> is_combining_mark (ucast m) then None
          else (case mark_tokens tokens of None \<Rightarrow> None | Some ms \<Rightarrow> Some (m # ms)))"

text \<open>The calls \<^verbatim>\<open>new_rules[code_point_1].AddMark(...)\<close> for a list of marks.\<close>

definition add_marks_at :: "u16 \<Rightarrow> decomposition_rules_t \<Rightarrow> u16 list \<Rightarrow> decomposition_rules_t" where
  "add_marks_at c rules ms =
     foldl (\<lambda>r m. smap_modify (<) Grapheme_default (\<lambda>g. AddMark g m) r c) rules ms"

text \<open>A line at which \<^verbatim>\<open>get_line\<close> stops reading.\<close>

definition starts_with_end_marking :: "string \<Rightarrow> bool" where
  "starts_with_end_marking line_str \<longleftrightarrow> length line_str \<ge> 1 \<and> line_str ! 0 = end_of_file_marking"

text \<open>
  A resource directory with a main configuration that defines code page 437 with two
  entries, the first of them an undefined character, and a decomposition file with one rule.
  There is no \<^verbatim>\<open>ASCII.TXT\<close>.
\<close>

definition example_files :: resources where
  "example_files dir name =
     (if dir = ''mapping'' \<and> name = ''MAIN.TXT'' then
        Opened (''CODEPAGE 437'' @ [CHR 0x0A] @ ''0x80'' @ [CHR 0x0A] @ ''0x81 0x00FC'' @ [CHR 0x0A])
          False
      else if dir = ''mapping'' \<and> name = ''DECOMPOSITION.TXT'' then
        Opened (''0x00C1 0x0041 0x0301'' @ [CHR 0x0A]) False
      else Unopenable)"

text \<open>The state after the configuration is loaded, and after code page 437 is prepared.\<close>

definition example_loaded :: registry where
  "example_loaded = load_config_if_needed example_files registry_initial"

definition example_prepared :: registry where
  "example_prepared = fst (the (get_custom_code_page example_files example_loaded 437))"

text \<open>\<^verbatim>\<open>mappings_reverse_by_codepage[code_page][byte]\<close>, when both are present.\<close>

definition reverse_lookup :: "registry \<Rightarrow> u16 \<Rightarrow> u8 \<Rightarrow> grapheme option" where
  "reverse_lookup st code_page byte =
     (case smap_find (<) (mappings_reverse_by_codepage st) code_page of
        None \<Rightarrow> None
      | Some reverse \<Rightarrow> smap_find (<) reverse byte)"

section \<open>Properties of the UTF-8 decoder\<close>

lemmas decode_thresholds =
  decode_threshold_non_ascii_def decode_threshold_2_bytes_def decode_threshold_3_bytes_def
  decode_threshold_4_bytes_def decode_threshold_5_bytes_def decode_threshold_6_bytes_def

text \<open>
  A value shifted left by six bits is never \<^verbatim>\<open>0x3F\<close>: a two-byte lead whose
  continuation byte is missing or out of range never yields the sentinel, while a lone
  continuation byte always does. Both clear the status.
\<close>

lemma shifted_not_sentinel: "ucast (push_bit 6 (x :: u32)) \<noteq> (0x3F :: u16)"
proof
  assume "ucast (push_bit 6 x) = (0x3F :: u16)"
  then have "bit (ucast (push_bit 6 x) :: u16) 0 = bit (0x3F :: u16) 0" by simp
  then show False by (simp add: bit_simps)
qed

lemma decode_at_two_byte_truncated:
  assumes "0xC0 \<le> byte_1" "byte_1 < 0xE0"
    and "rest = [] \<or> hd rest < 0x80 \<or> hd rest \<ge> 0xC0"
  shows "decode_at byte_1 rest = (push_bit 6 (ucast (byte_1 - 0xC0)), False, 0)"
proof -
  from assms(1,2) have b1: "\<not> byte_1 \<ge> 0xFC" "\<not> byte_1 \<ge> 0xF8" "\<not> byte_1 \<ge> 0xF0"
    "\<not> byte_1 \<ge> 0xE0"
    by (auto simp: word_le_def word_less_def)
  show ?thesis
  proof (cases rest)
    case Nil
    with b1 assms(1) show ?thesis by (simp add: decode_at_def decode_thresholds Let_def)
  next
    case (Cons byte_2 rest')
    with assms(3) have "\<not> (byte_2 \<ge> 0x80 \<and> byte_2 < 0xC0)"
      by (auto simp: word_le_def word_less_def)
    with b1 assms(1) Cons show ?thesis by (auto simp: decode_at_def decode_thresholds Let_def)
  qed
qed

lemma utf8_to_wide_two_byte_truncated:
  assumes "0xC0 \<le> byte_1" "byte_1 < 0xE0"
    and "rest = [] \<or> hd rest < 0x80 \<or> hd rest \<ge> 0xC0"
  shows "hd (fst (utf8_to_wide (byte_1 # rest))) \<noteq> 0x3F \<and> \<not> snd (utf8_to_wide (byte_1 # rest))"
  using decode_at_two_byte_truncated [OF assms] shifted_not_sentinel
  by (simp split: prod.splits)

lemma decode_at_lone_continuation:
  assumes "0x80 \<le> byte_1" "byte_1 < 0xC0"
  shows "decode_at byte_1 rest = (0x3F, False, 0)"
proof -
  from assms have "\<not> byte_1 \<ge> 0xFC" "\<not> byte_1 \<ge> 0xF8" "\<not> byte_1 \<ge> 0xF0" "\<not> byte_1 \<ge> 0xE0"
     "\<not> byte_1 \<ge> 0xC0" "\<not> byte_1 < 0x80"
    by (auto simp: word_le_def word_less_def)
  then show ?thesis
    by (simp add: decode_at_def decode_thresholds Let_def unknown_character_def)
qed

text \<open>
  C1. The claim is that every malformed sequence yields the code point \<^verbatim>\<open>0x3F\<close> and a
  false status. The decoder keeps a partly decoded value when the continuation of a
  two-byte or three-byte lead is missing: on the lead \<^verbatim>\<open>0xC3\<close> followed by the letter
  \<^verbatim>\<open>A\<close> it pushes \<^verbatim>\<open>0xC0\<close>, the lead's payload shifted left by six, and not
  \<^verbatim>\<open>0x3F\<close>. The status is cleared as claimed.
\<close>

theorem utf8_to_wide_truncated_two_byte:
  "utf8_to_wide [0xC3, 0x41] = ([0xC0, 0x41], False)"
  by (simp add: decode_at_def decode_thresholds unknown_character_def)

section \<open>Properties of graphemes\<close>

lemma Invalidate_eq: "Invalidate g = invalid_grapheme"
  by (simp add: Invalidate_def invalid_grapheme_def unknown_character_def)

lemma AddMark_invalid: "\<not> is_valid g \<Longrightarrow> AddMark g m = g"
  by (simp add: AddMark_def)

lemma foldl_AddMark_invalid: "\<not> is_valid g \<Longrightarrow> foldl AddMark g ms = g"
  by (induction ms) (simp_all add: AddMark_invalid)

lemma AddMark_marks_ok:
  assumes "marks_ok g" "is_combining_mark (ucast m)"
  shows "marks_ok (AddMark g m) \<and> code_point (AddMark g m) = code_point g \<and>
         set (marks (AddMark g m)) = insert m (set (marks g))"
  using assms by (auto simp: marks_ok_def AddMark_def)

lemma AddMark_not_mark:
  "is_valid g \<Longrightarrow> \<not> is_combining_mark (ucast m) \<Longrightarrow> AddMark g m = invalid_grapheme"
  by (simp add: AddMark_def Invalidate_eq)

lemma foldl_AddMark_all_marks:
  "marks_ok g \<Longrightarrow> \<forall>m \<in> set ms. is_combining_mark (ucast m) \<Longrightarrow>
   marks_ok (foldl AddMark g ms) \<and> code_point (foldl AddMark g ms) = code_point g \<and>
   set (marks (foldl AddMark g ms)) = set (marks g) \<union> set ms"
proof (induction ms arbitrary: g)
  case Nil
  then show ?case by simp
next
  case (Cons m ms)
  from Cons.prems have m: "is_combining_mark (ucast m)" by simp
  note step = AddMark_marks_ok [OF Cons.prems(1) m]
  from Cons.IH [of "AddMark g m"] step Cons.prems(2) show ?case by auto
qed

lemma foldl_AddMark_some_not_mark:
  "is_valid g \<Longrightarrow> \<exists>m \<in> set ms. \<not> is_combining_mark (ucast m) \<Longrightarrow>
   foldl AddMark g ms = invalid_grapheme"
proof (induction ms arbitrary: g)
  case Nil
  then show ?case by simp
next
  case (Cons m ms)
  show ?case
  proof (cases "is_combining_mark (ucast m)")
    case False
    with Cons.prems have "AddMark g m = invalid_grapheme" by (simp add: AddMark_not_mark)
    then show ?thesis by (simp add: foldl_AddMark_invalid invalid_grapheme_def)
  next
    case True
    show ?thesis
    proof (cases "is_valid (AddMark g m)")
      case True
      with Cons show ?thesis using \<open>is_combining_mark (ucast m)\<close> by auto
    next
      case False
      then have "AddMark g m = invalid_grapheme"
        using Cons.prems(1) True by (auto simp: AddMark_def Invalidate_eq split: if_splits)
      then show ?thesis by (simp add: foldl_AddMark_invalid invalid_grapheme_def)
    qed
  qed
qed

text \<open>Two sequences of marks with the same elements give equal graphemes.\<close>

lemma foldl_AddMark_set_eq:
  assumes "set ms1 = set ms2"
  shows "grapheme_eq (foldl AddMark (Grapheme base) ms1) (foldl AddMark (Grapheme base) ms2)"
proof (cases "is_combining_mark (ucast base)")
  case True
  then have "Grapheme base = invalid_grapheme" by (simp add: Grapheme_def Invalidate_eq)
  then show ?thesis by (simp add: foldl_AddMark_invalid invalid_grapheme_def grapheme_eq_def)
next
  case False
  then have ok: "marks_ok (Grapheme base)" and v: "is_valid (Grapheme base)"
    by (simp_all add: Grapheme_def marks_ok_def)
  show ?thesis
  proof (cases "\<forall>m \<in> set ms1. is_combining_mark (ucast m)")
    case True
    with assms have t2: "\<forall>m \<in> set ms2. is_combining_mark (ucast m)" by simp
    note r1 = foldl_AddMark_all_marks [OF ok True] and r2 = foldl_AddMark_all_marks [OF ok t2]
    from r1 r2 assms have "set (marks_sorted (foldl AddMark (Grapheme base) ms1))
       = set (marks_sorted (foldl AddMark (Grapheme base) ms2))"
      by (simp add: marks_ok_def)
    with r1 r2 have "marks_sorted (foldl AddMark (Grapheme base) ms1)
       = marks_sorted (foldl AddMark (Grapheme base) ms2)"
      by (intro sorted_distinct_set_unique) (simp_all add: marks_ok_def)
    with r1 r2 show ?thesis by (simp add: grapheme_eq_def marks_ok_def)
  next
    case False
    with assms have f2: "\<exists>m \<in> set ms2. \<not> is_combining_mark (ucast m)" by simp
    from False have f1: "\<exists>m \<in> set ms1. \<not> is_combining_mark (ucast m)" by simp
    show ?thesis
      by (simp add: foldl_AddMark_some_not_mark [OF v f1] foldl_AddMark_some_not_mark [OF v f2]
          grapheme_eq_def)
  qed
qed

text \<open>
  C5. For every base and marks \<open>m1\<close>, \<open>m2\<close>, \<^verbatim>\<open>Grapheme(base)\<close> with
  \<^verbatim>\<open>AddMark(m1)\<close> then \<^verbatim>\<open>AddMark(m2)\<close> compares equal under \<^verbatim>\<open>operator==\<close> to the
  grapheme built with the two calls swapped; and in general two sequences of
  \<^verbatim>\<open>AddMark\<close> calls on \<^verbatim>\<open>Grapheme(base)\<close> whose marks form the same multiset give
  equal graphemes, whatever the order of the calls.
\<close>

theorem AddMark_order_irrelevant:
  "grapheme_eq (AddMark (AddMark (Grapheme base) m1) m2)
               (AddMark (AddMark (Grapheme base) m2) m1) \<and>
   (\<forall>ms1 ms2. mset ms1 = mset ms2 \<longrightarrow>
      grapheme_eq (foldl AddMark (Grapheme base) ms1) (foldl AddMark (Grapheme base) ms2))"
proof
  have "set [m1, m2] = set [m2, m1]" by auto
  from foldl_AddMark_set_eq [OF this, of base]
  show "grapheme_eq (AddMark (AddMark (Grapheme base) m1) m2)
                    (AddMark (AddMark (Grapheme base) m2) m1)"
    by simp
next
  show "\<forall>ms1 ms2. mset ms1 = mset ms2 \<longrightarrow>
          grapheme_eq (foldl AddMark (Grapheme base) ms1) (foldl AddMark (Grapheme base) ms2)"
    using foldl_AddMark_set_eq mset_eq_setD by blast
qed

theorem AddMark_order_irrelevant_witness:
  "mset [0x0301, 0x0308, 0x0301 :: u16] = mset [0x0308, 0x0301, 0x0301] \<and>
   grapheme_eq (foldl AddMark (Grapheme 0x0041) [0x0301, 0x0308, 0x0301])
               (foldl AddMark (Grapheme 0x0041) [0x0308, 0x0301, 0x0301]) \<and>
   marks (foldl AddMark (Grapheme 0x0041) [0x0301, 0x0308, 0x0301]) = [0x0301, 0x0308] \<and>
   marks (foldl AddMark (Grapheme 0x0041) [0x0308, 0x0301, 0x0301]) = [0x0308, 0x0301]"
  using AddMark_order_irrelevant [of "0x0041" "0x0301" "0x0308"]
  by (simp add: Grapheme_def AddMark_def is_combining_mark_def combining_ranges_def)

lemma AddMark_inv: "marks_imply_valid g \<Longrightarrow> marks_imply_valid (AddMark g m)"
  by (auto simp: marks_imply_valid_def AddMark_def Invalidate_def)

lemma foldl_AddMark_inv: "marks_imply_valid g \<Longrightarrow> marks_imply_valid (foldl AddMark g ms)"
  by (induction ms arbitrary: g) (simp_all add: AddMark_inv)

lemma Decompose_loop_inv:
  assumes "Decompose_loop rules g = Some g'" and "marks_imply_valid g"
  shows "marks_imply_valid g'"
proof -
  have "marks_imply_valid g \<longrightarrow> marks_imply_valid g'"
  proof (rule Decompose_loop.raw_induct
      [where P = "\<lambda>rules g g'. marks_imply_valid g \<longrightarrow> marks_imply_valid g'", OF _ assms(1)])
    fix rec :: "decomposition_rules_t \<Rightarrow> grapheme \<Rightarrow> grapheme option" and rs h h'
    assume IH: "\<And>r a y. rec r a = Some y \<Longrightarrow> marks_imply_valid a \<longrightarrow> marks_imply_valid y"
      and body: "(case smap_find (<) rs (code_point h) of
                    None \<Rightarrow> Some h
                  | Some rule \<Rightarrow>
                      rec rs (foldl AddMark (h\<lparr>code_point := code_point rule\<rparr>) (marks rule)))
                 = Some h'"
    show "marks_imply_valid h \<longrightarrow> marks_imply_valid h'"
    proof
      assume h: "marks_imply_valid h"
      show "marks_imply_valid h'"
      proof (cases "smap_find (<) rs (code_point h)")
        case None
        with body h show ?thesis by simp
      next
        case (Some rule)
        have "marks_imply_valid (h\<lparr>code_point := code_point rule\<rparr>)"
          using h by (simp add: marks_imply_valid_def)
        then have "marks_imply_valid
            (foldl AddMark (h\<lparr>code_point := code_point rule\<rparr>) (marks rule))"
          by (rule foldl_AddMark_inv)
        with IH body Some show ?thesis by simp
      qed
    qed
  qed
  with assms(2) show ?thesis by simp
qed

lemma constructible_inv: "constructible rules g \<Longrightarrow> marks_imply_valid g"
proof (induction rule: constructible.induct)
  case default
  show ?case by (simp add: marks_imply_valid_def Grapheme_default_def)
next
  case (from_code_point cp)
  show ?case by (simp add: marks_imply_valid_def Grapheme_def Invalidate_def Let_def)
next
  case (invalidate g)
  show ?case by (simp add: marks_imply_valid_def Invalidate_def)
next
  case (add_mark g m)
  then show ?case by (simp add: AddMark_inv)
next
  case (strip_marks g)
  show ?case by (simp add: marks_imply_valid_def StripMarks_def)
next
  case (decompose g g')
  then show ?case
    by (auto simp: Decompose_def split: if_splits dest: Decompose_loop_inv)
qed

lemmas grapheme_eval =
  Grapheme_def Grapheme_default_def AddMark_def Invalidate_def StripMarks_def HasMark_def
  GetCodePoint_def is_combining_mark_def combining_ranges_def unknown_character_def

text \<open>
  The default-constructed grapheme and \<^verbatim>\<open>Grapheme(0x20)\<close> agree on the code point and
  have no marks, and differ in \<^verbatim>\<open>is_empty\<close>. Comparing them returns at the test that
  both mark vectors are empty, before the asserts.
\<close>

lemma default_and_space_return_early:
  "code_point Grapheme_default = code_point (Grapheme 0x20) \<and>
   marks_sorted Grapheme_default = marks_sorted (Grapheme 0x20) \<and>
   is_empty Grapheme_default \<noteq> is_empty (Grapheme 0x20) \<and>
   \<not> less_reaches_asserts Grapheme_default (Grapheme 0x20) \<and>
   grapheme_less_asserted Grapheme_default (Grapheme 0x20) = Returned False"
  by (simp add: less_reaches_asserts_def grapheme_less_asserted_def grapheme_eval)

text \<open>
  C9. The asserts at the end of \<^verbatim>\<open>Grapheme::operator<\<close> hold: for any two graphemes
  that a program can build, if control reaches the asserts then both have the same
  \<^verbatim>\<open>is_empty\<close> and the same \<^verbatim>\<open>is_valid\<close>; so no comparison fails an assert.
  Control reaches them only when the code points are equal and the sorted mark vectors are
  equal and not empty.
\<close>

theorem less_asserts_hold:
  assumes "constructible rules g1" and "constructible rules g2"
  shows "(less_reaches_asserts g1 g2 \<longrightarrow>
            is_empty g1 = is_empty g2 \<and> is_valid g1 = is_valid g2) \<and>
         grapheme_less_asserted g1 g2 \<noteq> AssertionFailed"
proof (cases "less_reaches_asserts g1 g2")
  case True
  then have "\<not> (marks_sorted g1 = [] \<and> marks_sorted g2 = [])"
    and "length (marks_sorted g1) = length (marks_sorted g2)"
    by (auto simp: less_reaches_asserts_def)
  then have "marks_sorted g1 \<noteq> []" "marks_sorted g2 \<noteq> []" by auto
  with constructible_inv [OF assms(1)] constructible_inv [OF assms(2)]
  have "is_valid g1" "\<not> is_empty g1" "is_valid g2" "\<not> is_empty g2"
    by (auto simp: marks_imply_valid_def)
  with True show ?thesis
    by (auto simp: less_reaches_asserts_def grapheme_less_asserted_def)
next
  case False
  then show ?thesis
    by (auto simp: less_reaches_asserts_def grapheme_less_asserted_def split: option.splits)
qed

theorem less_asserts_hold_witness:
  "constructible [] (AddMark (Grapheme 0x0041) 0x0301) \<and>
   constructible [] (AddMark (AddMark (Grapheme 0x0041) 0x0301) 0x0301) \<and>
   less_reaches_asserts (AddMark (Grapheme 0x0041) 0x0301)
                        (AddMark (AddMark (Grapheme 0x0041) 0x0301) 0x0301) \<and>
   is_empty (AddMark (Grapheme 0x0041) 0x0301)
     = is_empty (AddMark (AddMark (Grapheme 0x0041) 0x0301) 0x0301) \<and>
   is_valid (AddMark (Grapheme 0x0041) 0x0301)
     = is_valid (AddMark (AddMark (Grapheme 0x0041) 0x0301) 0x0301) \<and>
   grapheme_less_asserted (AddMark (Grapheme 0x0041) 0x0301)
                          (AddMark (AddMark (Grapheme 0x0041) 0x0301) 0x0301) \<noteq> AssertionFailed"
proof -
  have c1: "constructible [] (AddMark (Grapheme 0x0041) 0x0301)"
    by (intro constructible.intros)
  have c2: "constructible [] (AddMark (AddMark (Grapheme 0x0041) 0x0301) 0x0301)"
    by (intro constructible.intros)
  have r: "less_reaches_asserts (AddMark (Grapheme 0x0041) 0x0301)
                                (AddMark (AddMark (Grapheme 0x0041) 0x0301) 0x0301)"
    by (simp add: less_reaches_asserts_def grapheme_eval)
  from less_asserts_hold [OF c1 c2] c1 c2 r show ?thesis by blast
qed

section \<open>Termination of \<^verbatim>\<open>Decompose\<close>\<close>

lemma wf_rule_step: "acyclic_rules rules \<Longrightarrow> wf (rule_step rules)"
  unfolding acyclic_rules_def by (rule finite_acyclic_wf) simp_all

lemma AddMark_valid_code_point:
  "is_valid (AddMark g m) \<Longrightarrow> is_valid g \<and> code_point (AddMark g m) = code_point g"
  by (auto simp: AddMark_def Invalidate_def split: if_splits)

lemma foldl_AddMark_valid_code_point:
  "is_valid (foldl AddMark g ms) \<Longrightarrow>
   is_valid g \<and> code_point (foldl AddMark g ms) = code_point g"
proof (induction ms arbitrary: g)
  case Nil
  then show ?case by simp
next
  case (Cons m ms)
  from Cons.IH [of "AddMark g m"] Cons.prems
  have "is_valid (AddMark g m)"
    and "code_point (foldl AddMark g (m # ms)) = code_point (AddMark g m)"
    by simp_all
  with AddMark_valid_code_point [of g m] show ?case by simp
qed

lemma wf_decompose_order: "acyclic_rules rules \<Longrightarrow> wf (decompose_order rules)"
  unfolding decompose_order_def by (intro wf_inv_image wf_lex_prod wf_less_than wf_rule_step)

lemma decompose_step_decreases:
  assumes "smap_find (<) rules (code_point g) = Some rule"
  shows "(foldl AddMark (g\<lparr>code_point := code_point rule\<rparr>) (marks rule), g)
           \<in> decompose_order rules"
proof -
  let ?g0 = "g\<lparr>code_point := code_point rule\<rparr>"
  let ?g1 = "foldl AddMark ?g0 (marks rule)"
  have edge: "(code_point rule, code_point g) \<in> rule_step rules"
    using assms by (auto simp: rule_step_def)
  show ?thesis
  proof (cases "is_valid ?g1")
    case True
    from foldl_AddMark_valid_code_point [OF True]
    have "is_valid g" "code_point ?g1 = code_point rule" by simp_all
    with True edge show ?thesis by (simp add: decompose_order_def)
  next
    case False
    show ?thesis
    proof (cases "is_valid g")
      case True
      with False show ?thesis by (simp add: decompose_order_def)
    next
      case False
      then have "?g1 = ?g0" by (simp add: foldl_AddMark_invalid)
      with False edge show ?thesis by (simp add: decompose_order_def)
    qed
  qed
qed

lemma Decompose_loop_terminates:
  assumes "acyclic_rules rules"
  shows "\<exists>g'. Decompose_loop rules g = Some g'"
  using wf_decompose_order [OF assms]
proof (induction g rule: wf_induct_rule)
  case (less g)
  show ?case
  proof (cases "smap_find (<) rules (code_point g)")
    case None
    then show ?thesis by (subst Decompose_loop.simps) simp
  next
    case (Some rule)
    from less [OF decompose_step_decreases [OF Some]] Some
    show ?thesis by (subst Decompose_loop.simps) simp
  qed
qed

lemma Decompose_loop_result_no_rule:
  assumes "Decompose_loop rules g = Some g'"
  shows "smap_find (<) rules (code_point g') = None"
proof (rule Decompose_loop.raw_induct
      [where P = "\<lambda>rules g g'. smap_find (<) rules (code_point g') = None", OF _ assms])
  fix rec :: "decomposition_rules_t \<Rightarrow> grapheme \<Rightarrow> grapheme option" and rs h h'
  assume IH: "\<And>r a y. rec r a = Some y \<Longrightarrow> smap_find (<) r (code_point y) = None"
    and body: "(case smap_find (<) rs (code_point h) of
                  None \<Rightarrow> Some h
                | Some rule \<Rightarrow>
                    rec rs (foldl AddMark (h\<lparr>code_point := code_point rule\<rparr>) (marks rule)))
               = Some h'"
  show "smap_find (<) rs (code_point h') = None"
  proof (cases "smap_find (<) rs (code_point h)")
    case None
    with body show ?thesis by auto
  next
    case (Some rule)
    with IH body show ?thesis by simp
  qed
qed

lemma Decompose_idem: "Decompose rules g = Some g' \<Longrightarrow> Decompose rules g' = Some g'"
  by (auto simp: Decompose_def Decompose_loop.simps [of rules g']
      dest!: Decompose_loop_result_no_rule split: if_splits)

lemma rule_step_example: "rule_step example_rules = {(0x0041, 0x00C1)}"
  by (auto simp: rule_step_def example_rules_def grapheme_eval split: if_splits)

lemma acyclic_empty_relation: "acyclic ({} :: ('a \<times> 'a) set)"
  by (simp add: acyclic_def)

lemma acyclic_example: "acyclic (rule_step example_rules)"
  by (simp add: rule_step_example acyclic_empty_relation)

lemma Decompose_cyclic_diverges: "Decompose cyclic_rules (Grapheme 0x00C1) = None"
proof -
  have "Decompose_loop cyclic_rules (Grapheme 0x00C1) = None"
  proof (rule ccontr)
    assume "Decompose_loop cyclic_rules (Grapheme 0x00C1) \<noteq> None"
    then obtain g' where r: "Decompose_loop cyclic_rules (Grapheme 0x00C1) = Some g'" by auto
    have "cyclic_rules = cyclic_rules \<and> Grapheme 0x00C1 = Grapheme 0x00C1 \<longrightarrow> False"
    proof (rule Decompose_loop.raw_induct
        [where P = "\<lambda>rules g g'. rules = cyclic_rules \<and> g = Grapheme 0x00C1 \<longrightarrow> False",
          OF _ r])
      fix rec :: "decomposition_rules_t \<Rightarrow> grapheme \<Rightarrow> grapheme option" and rs h h'
      assume IH: "\<And>r a y. rec r a = Some y \<Longrightarrow>
                    r = cyclic_rules \<and> a = Grapheme 0x00C1 \<longrightarrow> False"
        and body: "(case smap_find (<) rs (code_point h) of
                      None \<Rightarrow> Some h
                    | Some rule \<Rightarrow>
                        rec rs (foldl AddMark (h\<lparr>code_point := code_point rule\<rparr>) (marks rule)))
                   = Some h'"
      show "rs = cyclic_rules \<and> h = Grapheme 0x00C1 \<longrightarrow> False"
      proof
        assume a: "rs = cyclic_rules \<and> h = Grapheme 0x00C1"
        with body have "rec cyclic_rules (Grapheme 0x00C1) = Some h'"
          by (simp add: cyclic_rules_def grapheme_eval)
        from IH [OF this] show False by simp
      qed
    qed
    then show False by simp
  qed
  then show ?thesis by (simp add: Decompose_def grapheme_eval)
qed

text \<open>
  C7. For every grapheme and every table of decomposition rules whose graph is acyclic (no
  code point reaches itself by following rule bases), \<^verbatim>\<open>Decompose\<close> terminates, and
  applying it again to its result changes nothing.
\<close>

theorem Decompose_terminates_and_idempotent:
  assumes "acyclic (rule_step rules)"
  shows "\<exists>g'. Decompose rules g = Some g' \<and> Decompose rules g' = Some g'"
proof -
  from assms have "acyclic_rules rules" by (simp add: acyclic_rules_def)
  from Decompose_loop_terminates [OF this, of g]
  have "\<exists>g'. Decompose rules g = Some g'" by (simp add: Decompose_def)
  then obtain g' where "Decompose rules g = Some g'" ..
  with Decompose_idem show ?thesis by blast
qed

theorem Decompose_terminates_and_idempotent_witness:
  "acyclic (rule_step example_rules) \<and>
   Decompose example_rules (Grapheme 0x00C1) = Some (AddMark (Grapheme 0x0041) 0x0301) \<and>
   Decompose example_rules (AddMark (Grapheme 0x0041) 0x0301)
     = Some (AddMark (Grapheme 0x0041) 0x0301)"
proof -
  have e: "Decompose example_rules (Grapheme 0x00C1) = Some (AddMark (Grapheme 0x0041) 0x0301)"
    by code_simp
  from Decompose_terminates_and_idempotent [OF acyclic_example, of "Grapheme 0x00C1"] e
  have "Decompose example_rules (AddMark (Grapheme 0x0041) 0x0301)
          = Some (AddMark (Grapheme 0x0041) 0x0301)"
    by auto
  with e acyclic_example show ?thesis by simp
qed

section \<open>One byte for each grapheme\<close>

text \<open>
  Each lambda of \<^verbatim>\<open>wide_to_dos\<close> is its step of the chain: it appends the byte of the
  step and returns true, or leaves the output alone and returns false.
\<close>

lemma first_success_append:
  "first_success (xs @ ys) = (case first_success xs of Some c \<Rightarrow> Some c | None \<Rightarrow> first_success ys)"
  by (induction xs rule: first_success.induct) simp_all

lemma push_7bit_step: "push_7bit g = push_result (step_7bit g)"
  by (rule ext)
     (auto simp: push_7bit_def push_result_def step_7bit_def decode_threshold_non_ascii_def)

lemma push_code_page_step: "push_code_page table g = push_result (step_code_page table g)"
  by (rule ext)
     (simp add: push_code_page_def push_result_def step_code_page_def split: option.splits)

lemma push_fallback_step: "push_fallback st g = push_result (step_ascii st g)"
  by (rule ext)
     (simp add: push_fallback_def push_result_def step_ascii_def split: option.splits)

lemma or_else_push_result:
  "or_else (push_result a) (push_result (first_success steps)) = push_result (first_success (a # steps))"
  by (rule ext) (cases a; simp add: or_else_def push_result_def)

lemma push_result_single: "push_result a = push_result (first_success [a])"
  by (cases a) simp_all

lemma push_normalized_steps:
  "push_normalized st t g = push_result (first_success (normalized_steps st t g))"
  unfolding push_normalized_def normalized_steps_def push_7bit_step push_code_page_step
    push_fallback_step
  by (subst push_result_single [of "step_ascii st g"]) (simp only: or_else_push_result)

lemma push_decomposed_steps:
  "or_else (push_code_page a gd) (push_code_page b gd)
     = push_result (first_success [step_code_page a gd, step_code_page b gd])"
  unfolding push_code_page_step
  by (subst push_result_single [of "step_code_page b gd"]) (simp only: or_else_push_result)

lemma first_success_fallback_chain:
  "first_success (fallback_chain st t g gd) =
     (case first_success (normalized_steps st t g) of
        Some c \<Rightarrow> Some c
      | None \<Rightarrow>
          (case first_success [step_code_page (mapping_decomposed t) gd,
                               step_code_page (aliases_decomposed t) gd] of
             Some c \<Rightarrow> Some c
           | None \<Rightarrow>
               if HasMark gd then first_success (normalized_steps st t (StripMarks gd))
               else None))"
  unfolding fallback_chain_def first_success_append
  by (simp split: option.splits)

lemma convert_grapheme_chain:
  assumes "convert_grapheme st t g (str_out, status) = Some acc'"
  shows "acc' =
          (case first_success (fallback_chain st t g (the (Decompose (decomposition_rules st) g))) of
             Some c \<Rightarrow> (str_out @ [c], status)
           | None \<Rightarrow> (str_out @ [unknown_character], False))"
proof (cases "first_success (normalized_steps st t g)")
  case (Some c)
  with assms show ?thesis
    by (simp add: convert_grapheme_def push_normalized_steps push_result_def
        first_success_fallback_chain)
next
  case None
  with assms obtain gd where gd: "Decompose (decomposition_rules st) g = Some gd"
    by (auto simp: convert_grapheme_def push_normalized_steps push_result_def
        push_decomposed_def split: option.splits)
  let ?d = "first_success [step_code_page (mapping_decomposed t) gd,
                           step_code_page (aliases_decomposed t) gd]"
  show ?thesis
  proof (cases ?d)
    case (Some c)
    with assms None gd show ?thesis
      by (simp add: convert_grapheme_def push_normalized_steps push_result_def
          push_decomposed_def push_decomposed_steps first_success_fallback_chain
          del: first_success.simps)
  next
    case d: None
    show ?thesis
    proof (cases "HasMark gd")
      case True
      with assms None gd d show ?thesis
        by (cases "first_success (normalized_steps st t (StripMarks gd))")
           (simp_all add: convert_grapheme_def push_normalized_steps push_result_def
              push_decomposed_def push_decomposed_steps first_success_fallback_chain
              push_unknown_def del: first_success.simps)
    next
      case False
      with assms None gd d show ?thesis
        by (simp add: convert_grapheme_def push_normalized_steps push_result_def
            push_decomposed_def push_decomposed_steps first_success_fallback_chain
            push_unknown_def del: first_success.simps)
    qed
  qed
qed

lemma convert_grapheme_returns:
  assumes "Decompose (decomposition_rules st) g \<noteq> None"
  shows "convert_grapheme st t g acc \<noteq> None"
  using assms
  by (auto simp: convert_grapheme_def push_decomposed_def
      split: option.splits prod.splits bool.splits)

lemma filter_dropWhile_not:
  "filter (\<lambda>x. \<not> P x) (dropWhile P xs) = filter (\<lambda>x. \<not> P x) xs"
  by (induction xs) simp_all

lemma count_graphemes_dropWhile:
  "count_graphemes (dropWhile (\<lambda>x. is_combining_mark (ucast x)) rest)
     = length (filter (\<lambda>x. \<not> is_combining_mark (ucast x)) rest)"
proof -
  let ?P = "\<lambda>x::u16. is_combining_mark (ucast x)"
  have eq: "filter (\<lambda>x. \<not> ?P x) rest = filter (\<lambda>x. \<not> ?P x) (dropWhile ?P rest)"
    by (simp add: filter_dropWhile_not)
  show ?thesis
  proof (cases "dropWhile ?P rest")
    case Nil
    show ?thesis unfolding eq Nil by (simp add: count_graphemes_def)
  next
    case (Cons c r)
    then have "\<not> ?P c"
      by (metis hd_dropWhile list.sel(1) list.distinct(1))
    then show ?thesis unfolding eq Cons by (simp add: count_graphemes_def)
  qed
qed

lemma wide_to_dos_loop_bytes:
  "wide_to_dos_loop st t str_in acc = Some acc' \<Longrightarrow>
   fst acc' = fst acc @ map (emitted_byte st t) (graphemes str_in) \<and>
   snd acc' = (snd acc \<and> (\<forall>g \<in> set (graphemes str_in). grapheme_byte st t g \<noteq> None))"
proof (induction st t str_in acc rule: wide_to_dos_loop.induct)
  case (1 st t acc)
  then show ?case by simp
next
  case (2 st t c rest acc)
  let ?g = "foldl AddMark (Grapheme c) (takeWhile (\<lambda>x. is_combining_mark (ucast x)) rest)"
  from "2.prems" obtain acc1 where
    step: "convert_grapheme st t ?g acc = Some acc1" and
    rest: "wide_to_dos_loop st t (dropWhile (\<lambda>x. is_combining_mark (ucast x)) rest) acc1
             = Some acc'"
    by (auto split: option.splits)
  obtain out status where acc: "acc = (out, status)" by (cases acc)
  from convert_grapheme_chain [OF step [unfolded acc]]
  have acc1: "fst acc1 = out @ [emitted_byte st t ?g]"
       "snd acc1 = (status \<and> grapheme_byte st t ?g \<noteq> None)"
    by (auto simp: emitted_byte_def grapheme_byte_def split: option.splits)
  from "2.IH" [OF step rest] acc1 acc show ?case by auto
qed

lemma length_graphemes: "length (graphemes str_in) = count_graphemes str_in"
proof (induction str_in rule: graphemes.induct)
  case 1
  show ?case by (simp add: count_graphemes_def)
next
  case (2 c rest)
  then show ?case by (simp add: count_graphemes_dropWhile) (simp add: count_graphemes_def)
qed

lemma wide_to_dos_loop_returns:
  assumes "acyclic_rules (decomposition_rules st)"
  shows "wide_to_dos_loop st t str_in acc \<noteq> None"
  using assms
proof (induction st t str_in acc rule: wide_to_dos_loop.induct)
  case (1 st t acc)
  then show ?case by simp
next
  case (2 st t c rest acc)
  let ?g = "foldl AddMark (Grapheme c) (takeWhile (\<lambda>x. is_combining_mark (ucast x)) rest)"
  from Decompose_loop_terminates [OF "2.prems", of ?g]
  have "Decompose (decomposition_rules st) ?g \<noteq> None" by (auto simp: Decompose_def)
  then have "convert_grapheme st t ?g acc \<noteq> None" by (rule convert_grapheme_returns)
  then obtain acc1 where step: "convert_grapheme st t ?g acc = Some acc1" by auto
  from "2.IH" [OF step "2.prems"] step show ?case by simp
qed

text \<open>
  C4. In \<^verbatim>\<open>wide_to_dos\<close> every assembled grapheme contributes exactly one byte: for
  every sequence of code points and every code page, the output has as many bytes as the
  input has graphemes (a base code point with the combining marks that directly follow it).
  The byte of a grapheme is that of the first step of the fallback chain that succeeds, and
  it is the unknown-character sentinel when no step succeeds; the status returned is true
  exactly when some step succeeded for every grapheme. The same holds for one pass of the
  loop body from any output string and any status: a step that succeeds appends its byte
  and keeps the status, and when none succeeds the sentinel is appended and the status is
  cleared. The function returns whenever the decomposition rules are acyclic; it calls
  \<^verbatim>\<open>Decompose\<close>, which does not return on a cyclic table.
\<close>

theorem wide_to_dos_one_byte_per_grapheme:
  "(\<forall>str_out status. wide_to_dos st str_in code_page = Some (str_out, status) \<longrightarrow>
       length str_out = count_graphemes str_in \<and>
       str_out = map (emitted_byte st (find_tables st code_page)) (graphemes str_in) \<and>
       status = (\<forall>g \<in> set (graphemes str_in).
                   grapheme_byte st (find_tables st code_page) g \<noteq> None)) \<and>
   (acyclic (rule_step (decomposition_rules st)) \<longrightarrow>
       (\<exists>str_out status. wide_to_dos st str_in code_page = Some (str_out, status))) \<and>
   (\<forall>t g str_out status str_out' status'.
       convert_grapheme st t g (str_out, status) = Some (str_out', status') \<longrightarrow>
       (case grapheme_byte st t g of
          Some c \<Rightarrow> str_out' = str_out @ [c] \<and> status' = status
        | None \<Rightarrow> str_out' = str_out @ [unknown_character] \<and> \<not> status'))"
proof (intro conjI allI impI)
  fix str_out status
  assume r: "wide_to_dos st str_in code_page = Some (str_out, status)"
  from wide_to_dos_loop_bytes [OF r [unfolded wide_to_dos_def]]
  show b: "str_out = map (emitted_byte st (find_tables st code_page)) (graphemes str_in)"
    and "status = (\<forall>g \<in> set (graphemes str_in).
                     grapheme_byte st (find_tables st code_page) g \<noteq> None)"
    by simp_all
  show "length str_out = count_graphemes str_in"
    unfolding b by (simp add: length_graphemes)
next
  assume "acyclic (rule_step (decomposition_rules st))"
  then have "acyclic_rules (decomposition_rules st)" by (simp add: acyclic_rules_def)
  from wide_to_dos_loop_returns [OF this]
  show "\<exists>str_out status. wide_to_dos st str_in code_page = Some (str_out, status)"
    by (simp add: wide_to_dos_def)
next
  fix t g str_out status str_out' status'
  assume "convert_grapheme st t g (str_out, status) = Some (str_out', status')"
  from convert_grapheme_chain [OF this]
  show "case grapheme_byte st t g of
          Some c \<Rightarrow> str_out' = str_out @ [c] \<and> status' = status
        | None \<Rightarrow> str_out' = str_out @ [unknown_character] \<and> \<not> status'"
    by (simp add: grapheme_byte_def split: option.splits)
qed

theorem wide_to_dos_one_byte_per_grapheme_witness:
  "acyclic (rule_step (decomposition_rules example_registry)) \<and>
   wide_to_dos example_registry [0x00C1, 0x0065, 0x0301, 0x65E5, 0x65E6] 0
     = Some ([0x41, 0x65, 0x3F, 0x3F], False) \<and>
   count_graphemes [0x00C1, 0x0065, 0x0301, 0x65E5, 0x65E6] = 4 \<and>
   map (emitted_byte example_registry (find_tables example_registry 0))
       (graphemes [0x00C1, 0x0065, 0x0301, 0x65E5, 0x65E6])
     = [0x41, 0x65, 0x3F, 0x3F] \<and>
   grapheme_byte example_registry (find_tables example_registry 0) (Grapheme 0x00C1) = Some 0x41 \<and>
   grapheme_byte example_registry (find_tables example_registry 0) (Grapheme 0x65E6) = None \<and>
   convert_grapheme example_registry (find_tables example_registry 0) (Grapheme 0x65E6)
       ([0x41, 0x65, 0x3F], False)
     = Some ([0x41, 0x65, 0x3F, unknown_character], False)"
proof -
  let ?s = "[0x00C1, 0x0065, 0x0301, 0x65E5, 0x65E6] :: u16 list"
  let ?t = "find_tables example_registry 0"
  have a: "acyclic (rule_step (decomposition_rules example_registry))"
    using acyclic_example by (simp add: example_registry_def)
  have e: "wide_to_dos example_registry ?s 0 = Some ([0x41, 0x65, 0x3F, 0x3F], False)"
    by code_simp
  have s: "convert_grapheme example_registry ?t (Grapheme 0x65E6) ([0x41, 0x65, 0x3F], False)
             = Some ([0x41, 0x65, 0x3F, unknown_character], False)"
    by code_simp
  have g1: "grapheme_byte example_registry ?t (Grapheme 0x00C1) = Some 0x41"
    by code_simp
  have g2: "grapheme_byte example_registry ?t (Grapheme 0x65E6) = None"
    by code_simp
  note inst = wide_to_dos_one_byte_per_grapheme [of example_registry ?s 0]
  from inst e have "length [0x41, 0x65, 0x3F, 0x3F :: u8] = count_graphemes ?s"
    by blast
  then have c: "count_graphemes ?s = 4" by simp
  from inst e
  have "[0x41, 0x65, 0x3F, 0x3F] = map (emitted_byte example_registry ?t) (graphemes ?s)"
    by blast
  then have m: "map (emitted_byte example_registry ?t) (graphemes ?s) = [0x41, 0x65, 0x3F, 0x3F]"
    by (rule sym)
  from a e c m g1 g2 s show ?thesis by blast
qed

section \<open>Properties of the \<^verbatim>\<open>std::map\<close> model\<close>

text \<open>
  For keys that are integers the comparator is \<open><\<close>, and a table built by the operations
  from the empty one is sorted by key.
\<close>

lemma smap_find_map_of: "smap_find (<) m (k :: 'a :: linorder) = map_of m k"
  by (induction m) (auto simp: not_less)

lemma smap_modify_keys:
  "fst ` set (smap_modify (<) d f m (k :: 'a :: linorder)) = insert k (fst ` set m)"
proof (induction m)
  case Nil
  show ?case by simp
next
  case (Cons a m)
  obtain k' v' where a: "a = (k', v')" by (cases a)
  consider "k < k'" | "k' < k" | "k = k'" by (metis not_less_iff_gr_or_eq)
  then show ?case
  proof cases
    case 1
    with a show ?thesis by simp
  next
    case 2
    then have "\<not> k < k'" by simp
    with 2 a Cons.IH show ?thesis by auto
  next
    case 3
    with a show ?thesis by simp
  qed
qed

lemma smap_modify_sorted:
  "sorted_wrt (<) (map fst m) \<Longrightarrow>
   sorted_wrt (<) (map fst (smap_modify (<) d f m (k :: 'a :: linorder)))"
proof (induction m)
  case Nil
  show ?case by simp
next
  case (Cons a m)
  obtain k' v' where a: "a = (k', v')" by (cases a)
  from Cons.prems have s: "sorted_wrt (<) (map fst m)" by simp
  show ?case
  proof (cases "k < k'")
    case True
    with Cons.prems a show ?thesis by auto
  next
    case False
    show ?thesis
    proof (cases "k' < k")
      case True
      have "\<forall>x \<in> set (map fst (smap_modify (<) d f m k)). k' < x"
        using smap_modify_keys [of d f m k] Cons.prems a True by auto
      with Cons.IH [OF s] a True False show ?thesis by simp
    next
      case False
      with \<open>\<not> k < k'\<close> Cons.prems a show ?thesis by simp
    qed
  qed
qed

lemma smap_modify_map_of:
  "sorted_wrt (<) (map fst m) \<Longrightarrow>
   map_of (smap_modify (<) d f m (k :: 'a :: linorder)) =
     (map_of m)(k \<mapsto> f (case map_of m k of None \<Rightarrow> d | Some v \<Rightarrow> v))"
proof (induction m)
  case Nil
  show ?case by simp
next
  case (Cons a m)
  obtain k' v' where a: "a = (k', v')" by (cases a)
  from Cons.prems have s: "sorted_wrt (<) (map fst m)" by simp
  show ?case
  proof (cases "k < k'")
    case True
    have "map_of m k = None"
    proof (rule ccontr)
      assume "map_of m k \<noteq> None"
      then have "k \<in> fst ` set m" by (auto simp: map_of_eq_None_iff)
      with Cons.prems a have "k' < k" by auto
      with True show False by simp
    qed
    with True a show ?thesis by auto
  next
    case False
    show ?thesis
    proof (cases "k' < k")
      case True
      with Cons.IH [OF s] a False show ?thesis by auto
    next
      case False
      with \<open>\<not> k < k'\<close> have "k = k'" by simp
      with a show ?thesis by auto
    qed
  qed
qed

section \<open>Properties of the imports\<close>

lemma decomposition_marks_Some:
  "mark_tokens tokens = Some ms \<Longrightarrow>
   decomposition_marks c tokens idx rules = Inr (add_marks_at c rules ms)"
proof (induction tokens arbitrary: idx rules ms)
  case Nil
  then show ?case by (simp add: add_marks_at_def)
next
  case (Cons token tokens)
  from Cons.prems obtain m ms' where m: "get_hex_16bit token = Some m"
    and c: "is_combining_mark (ucast m)" and ms': "mark_tokens tokens = Some ms'"
    and ms: "ms = m # ms'"
    by (auto split: option.splits if_splits)
  from Cons.IH [OF ms', of "idx + 1" "smap_modify (<) Grapheme_default (\<lambda>g. AddMark g m) rules c"]
    m c ms
  show ?case by (simp add: add_marks_at_def)
qed

lemma decomposition_marks_None:
  "mark_tokens tokens = None \<Longrightarrow> isl (decomposition_marks c tokens idx rules)"
proof (induction tokens arbitrary: idx rules)
  case Nil
  then show ?case by simp
next
  case (Cons token tokens)
  show ?case
  proof (cases "get_hex_16bit token")
    case None
    then show ?thesis by simp
  next
    case (Some m)
    show ?thesis
    proof (cases "is_combining_mark (ucast m)")
      case False
      with Some show ?thesis by simp
    next
      case True
      with Some Cons.prems have "mark_tokens tokens = None" by (simp split: option.splits)
      from Cons.IH [OF this] Some True show ?thesis by simp
    qed
  qed
qed

lemma decomposition_marks_isl:
  "isl (decomposition_marks c tokens idx rules) \<longleftrightarrow> mark_tokens tokens = None"
  by (cases "mark_tokens tokens") (simp_all add: decomposition_marks_None decomposition_marks_Some)

lemma add_marks_at_sorted:
  "sorted_wrt (<) (map fst rules) \<Longrightarrow> sorted_wrt (<) (map fst (add_marks_at c rules ms))"
  unfolding add_marks_at_def
  by (induction ms arbitrary: rules) (simp_all add: smap_modify_sorted)

lemma add_marks_at_map_of:
  assumes "sorted_wrt (<) (map fst rules)" and "map_of rules c = Some g"
  shows "map_of (add_marks_at c rules ms) = (map_of rules)(c \<mapsto> foldl AddMark g ms)"
  using assms
proof (induction ms arbitrary: rules g)
  case Nil
  then show ?case by (auto simp: add_marks_at_def)
next
  case (Cons m ms)
  let ?r = "smap_modify (<) Grapheme_default (\<lambda>g. AddMark g m) rules c"
  have s: "sorted_wrt (<) (map fst ?r)" using Cons.prems(1) by (rule smap_modify_sorted)
  have f: "map_of ?r = (map_of rules)(c \<mapsto> AddMark g m)"
    using Cons.prems by (simp add: smap_modify_map_of)
  then have c: "map_of ?r c = Some (AddMark g m)" by simp
  have "map_of (add_marks_at c rules (m # ms)) = map_of (add_marks_at c ?r ms)"
    by (simp add: add_marks_at_def)
  also have "\<dots> = (map_of ?r)(c \<mapsto> foldl AddMark (AddMark g m) ms)"
    by (rule Cons.IH [OF s c])
  also have "\<dots> = (map_of rules)(c \<mapsto> foldl AddMark g (m # ms))"
    unfolding f by simp
  finally show ?case .
qed

lemma decomposition_line_accepts:
  assumes "sorted_wrt (<) (map fst new_rules)"
    and "decomposition_line tokens new_rules = Inr rules'"
  shows "\<exists>c1 c2 ms. get_hex_16bit (tokens ! 0) = Some c1 \<and> get_hex_16bit (tokens ! 1) = Some c2 \<and>
           mark_tokens (drop 2 tokens) = Some ms \<and>
           smap_find (<) rules' = (smap_find (<) new_rules)(c1 \<mapsto> foldl AddMark (Grapheme c2) ms)"
proof -
  from assms(2) obtain c1 c2 where
    c1: "get_hex_16bit (tokens ! 0) = Some c1" and c2: "get_hex_16bit (tokens ! 1) = Some c2"
    and m: "decomposition_marks c1 (drop 2 tokens) 2 (smap_assign (<) new_rules c1 (Grapheme c2)) = Inr rules'"
    by (auto simp: decomposition_line_def split: if_splits option.splits)
  let ?r0 = "smap_assign (<) new_rules c1 (Grapheme c2)"
  from m have "\<not> isl (decomposition_marks c1 (drop 2 tokens) 2 ?r0)" by simp
  then obtain ms where ms: "mark_tokens (drop 2 tokens) = Some ms"
    by (auto simp: decomposition_marks_isl)
  from decomposition_marks_Some [OF ms, of c1 2 ?r0] m
  have r: "rules' = add_marks_at c1 ?r0 ms" by simp
  have s0: "sorted_wrt (<) (map fst ?r0)"
    unfolding smap_assign_def using assms(1) by (rule smap_modify_sorted)
  have f0: "map_of ?r0 = (map_of new_rules)(c1 \<mapsto> Grapheme c2)"
    unfolding smap_assign_def using assms(1) by (simp add: smap_modify_map_of)
  then have "map_of ?r0 c1 = Some (Grapheme c2)" by simp
  from add_marks_at_map_of [OF s0 this, of ms] f0 r
  have "map_of rules' = (map_of new_rules)(c1 \<mapsto> foldl AddMark (Grapheme c2) ms)" by simp
  then have "smap_find (<) rules' = (smap_find (<) new_rules)(c1 \<mapsto> foldl AddMark (Grapheme c2) ms)"
    by (simp add: smap_find_map_of fun_eq_iff)
  with c1 c2 ms show ?thesis by blast
qed

lemma decomposition_line_independent:
  "isl (decomposition_line tokens new_rules) = isl (decomposition_line tokens [])"
  by (simp add: decomposition_line_def decomposition_marks_isl split: option.splits)

lemma mark_tokens_not_mark:
  assumes "i < length tokens" "get_hex_16bit (tokens ! i) = Some m" "\<not> is_combining_mark (ucast m)"
  shows "mark_tokens tokens = None"
  using assms
proof (induction tokens arbitrary: i)
  case Nil
  then show ?case by simp
next
  case (Cons t ts)
  show ?case
  proof (cases i)
    case 0
    with Cons.prems show ?thesis by simp
  next
    case (Suc j)
    with Cons.prems Cons.IH [of j] show ?thesis by (simp split: option.splits)
  qed
qed

lemma decomposition_line_not_mark:
  assumes "2 \<le> i" "i < length tokens" "get_hex_16bit (tokens ! i) = Some m"
    "\<not> is_combining_mark (ucast m)"
  shows "isl (decomposition_line tokens new_rules)"
proof -
  from assms(1) obtain j where j: "i = 2 + j" by (auto simp: le_iff_add)
  with assms have "mark_tokens (drop 2 tokens) = None"
    by (intro mark_tokens_not_mark [of j _ m]) auto
  then show ?thesis
    by (simp add: decomposition_line_def decomposition_marks_isl split: option.splits)
qed

lemma read_loop_line_fails:
  assumes "\<forall>l \<in> set before. \<not> starts_with_end_marking l"
    and "\<not> starts_with_end_marking line_str" and "get_tokens line_str \<noteq> []"
    and "\<forall>s. isl (body (get_tokens line_str) s)"
  shows "isl (read_loop body (before @ line_str # rest) s)"
  using assms(1)
proof (induction before arbitrary: s)
  case Nil
  have ne: "line_str \<noteq> []" using assms(3) by (auto simp: get_tokens_def)
  from assms(4) obtain e where "body (get_tokens line_str) s = Inl e"
    by (auto simp: isl_def)
  with ne assms(2,3) show ?case
    by (simp add: starts_with_end_marking_def)
next
  case (Cons l ls)
  from Cons.prems have nm: "\<not> starts_with_end_marking l"
    and rest: "\<forall>l \<in> set ls. \<not> starts_with_end_marking l" by simp_all
  note IH = Cons.IH [OF rest]
  show ?case
  proof (cases "l = [] \<or> get_tokens l = []")
    case True
    with nm IH [of s] show ?thesis by (auto simp: starts_with_end_marking_def)
  next
    case False
    show ?thesis
    proof (cases "body (get_tokens l) s")
      case (Inl e)
      with False nm show ?thesis by (simp add: starts_with_end_marking_def)
    next
      case (Inr s')
      with False nm IH [of s'] show ?thesis by (simp add: starts_with_end_marking_def)
    qed
  qed
qed

lemma read_file_line_fails:
  assumes "lines_of content = before @ line_str # rest"
    and "\<forall>l \<in> set before. \<not> starts_with_end_marking l"
    and "\<not> starts_with_end_marking line_str" and "get_tokens line_str \<noteq> []"
    and "\<forall>s. isl (body (get_tokens line_str) s)"
  shows "isl (read_file body init no_entries (Opened content input_error))"
proof -
  from read_loop_line_fails [where body = body, OF assms(2) assms(3) assms(4) assms(5)]
  have "isl (read_loop body (lines_of content) init)" by (simp add: assms(1))
  then show ?thesis by (auto simp: read_file_def isl_def)
qed

lemma read_file_Inr_iff:
  "read_file body init no_entries in_file = Inr s \<longleftrightarrow>
     (\<exists>content input_error ended.
        in_file = Opened content input_error \<and>
        read_loop body (lines_of content) init = Inr (s, ended) \<and>
        \<not> stream_failed ended input_error \<and> \<not> no_entries s)"
  by (auto simp: read_file_def check_import_status_def
      split: mapping_file.splits sum.splits option.splits if_splits)

text \<open>
  C6. Loading is atomic for each table. When \<^verbatim>\<open>import_config_main\<close>,
  \<^verbatim>\<open>import_decomposition\<close> or \<^verbatim>\<open>import_mapping_ascii\<close> returns early, because the
  file cannot be opened, a line does not parse, reading fails or the file has no entries, the
  state is exactly what it was before the call. The tables are replaced only when the loop
  has read the whole file without an error, the stream has not failed and there are entries;
  then exactly the tables of that import are replaced.
\<close>

theorem imports_are_atomic:
  "(\<forall>e. read_config_main main_file = Inl e \<longrightarrow> import_config_main main_file st = st) \<and>
   (\<forall>e. read_decomposition decomposition_file = Inl e \<longrightarrow>
      import_decomposition decomposition_file st = st) \<and>
   (\<forall>e. read_mapping_ascii ascii_file = Inl e \<longrightarrow> import_mapping_ascii ascii_file st = st) \<and>
   (\<forall>s. read_config_main main_file = Inr s \<longrightarrow>
      import_config_main main_file st =
        st\<lparr>config_mappings := new_config_mappings s,
           config_duplicates := new_config_duplicates s,
           config_aliases := new_config_aliases s\<rparr> \<and>
      (\<exists>content input_error ended.
         main_file = Opened content input_error \<and>
         read_loop config_main_line (lines_of content) config_main_locals_initial = Inr (s, ended) \<and>
         \<not> stream_failed ended input_error \<and> \<not> file_empty s)) \<and>
   (\<forall>new_rules. read_decomposition decomposition_file = Inr new_rules \<longrightarrow>
      import_decomposition decomposition_file st = st\<lparr>decomposition_rules := new_rules\<rparr> \<and>
      (\<exists>content input_error ended.
         decomposition_file = Opened content input_error \<and>
         read_loop decomposition_line (lines_of content) [] = Inr (new_rules, ended) \<and>
         \<not> stream_failed ended input_error \<and> new_rules \<noteq> [])) \<and>
   (\<forall>new_mapping_ascii. read_mapping_ascii ascii_file = Inr new_mapping_ascii \<longrightarrow>
      import_mapping_ascii ascii_file st = st\<lparr>mapping_ascii := new_mapping_ascii\<rparr> \<and>
      (\<exists>content input_error ended.
         ascii_file = Opened content input_error \<and>
         read_loop mapping_ascii_line (lines_of content) [] = Inr (new_mapping_ascii, ended) \<and>
         \<not> stream_failed ended input_error \<and> new_mapping_ascii \<noteq> []))"
proof (intro conjI allI impI)
  fix e assume "read_config_main main_file = Inl e"
  then show "import_config_main main_file st = st" by (simp add: import_config_main_def)
next
  fix e assume "read_decomposition decomposition_file = Inl e"
  then show "import_decomposition decomposition_file st = st"
    by (simp add: import_decomposition_def)
next
  fix e assume "read_mapping_ascii ascii_file = Inl e"
  then show "import_mapping_ascii ascii_file st = st" by (simp add: import_mapping_ascii_def)
next
  fix s assume r: "read_config_main main_file = Inr s"
  then show "import_config_main main_file st =
        st\<lparr>config_mappings := new_config_mappings s,
           config_duplicates := new_config_duplicates s,
           config_aliases := new_config_aliases s\<rparr>"
    by (simp add: import_config_main_def)
  from r show "\<exists>content input_error ended.
         main_file = Opened content input_error \<and>
         read_loop config_main_line (lines_of content) config_main_locals_initial = Inr (s, ended) \<and>
         \<not> stream_failed ended input_error \<and> \<not> file_empty s"
    by (simp add: read_config_main_def read_file_Inr_iff)
next
  fix new_rules assume r: "read_decomposition decomposition_file = Inr new_rules"
  then show "import_decomposition decomposition_file st = st\<lparr>decomposition_rules := new_rules\<rparr>"
    by (simp add: import_decomposition_def)
  from r show "\<exists>content input_error ended.
         decomposition_file = Opened content input_error \<and>
         read_loop decomposition_line (lines_of content) [] = Inr (new_rules, ended) \<and>
         \<not> stream_failed ended input_error \<and> new_rules \<noteq> []"
    by (simp add: read_decomposition_def read_file_Inr_iff)
next
  fix new_mapping_ascii assume r: "read_mapping_ascii ascii_file = Inr new_mapping_ascii"
  then show "import_mapping_ascii ascii_file st = st\<lparr>mapping_ascii := new_mapping_ascii\<rparr>"
    by (simp add: import_mapping_ascii_def)
  from r show "\<exists>content input_error ended.
         ascii_file = Opened content input_error \<and>
         read_loop mapping_ascii_line (lines_of content) [] = Inr (new_mapping_ascii, ended) \<and>
         \<not> stream_failed ended input_error \<and> new_mapping_ascii \<noteq> []"
    by (simp add: read_mapping_ascii_def read_file_Inr_iff)
qed

theorem imports_are_atomic_witness:
  "read_config_main
     (Opened (''CODEPAGE 437'' @ [CHR 0x0A] @ ''0x80 0x00C7'' @ [CHR 0x0A] @ ''CODEPAGE 437'') False)
     = Inl CodePageDefined \<and>
   import_config_main
     (Opened (''CODEPAGE 437'' @ [CHR 0x0A] @ ''0x80 0x00C7'' @ [CHR 0x0A] @ ''CODEPAGE 437'') False)
     example_registry = example_registry \<and>
   read_decomposition Unopenable = Inl CouldNotOpen \<and>
   import_decomposition Unopenable example_registry = example_registry \<and>
   read_mapping_ascii (Opened (''0x00C1 A'' @ [CHR 0x0A]) True) = Inl ErrorReading \<and>
   import_mapping_ascii (Opened (''0x00C1 A'' @ [CHR 0x0A]) True) example_registry
     = example_registry \<and>
   read_mapping_ascii (Opened [] False) = Inl NoEntries \<and>
   import_mapping_ascii (Opened [] False) example_registry = example_registry \<and>
   read_decomposition (Opened (''0x00C9 0x0045 0x0301'' @ [CHR 0x0A]) False)
     = Inr [(0x00C9, AddMark (Grapheme 0x0045) 0x0301)] \<and>
   import_decomposition (Opened (''0x00C9 0x0045 0x0301'' @ [CHR 0x0A]) False) example_registry
     = example_registry\<lparr>decomposition_rules := [(0x00C9, AddMark (Grapheme 0x0045) 0x0301)]\<rparr>"
proof -
  let ?main =
    "Opened (''CODEPAGE 437'' @ [CHR 0x0A] @ ''0x80 0x00C7'' @ [CHR 0x0A] @ ''CODEPAGE 437'') False"
  let ?ascii = "Opened (''0x00C1 A'' @ [CHR 0x0A]) True"
  let ?good = "Opened (''0x00C9 0x0045 0x0301'' @ [CHR 0x0A]) False"
  have m: "read_config_main ?main = Inl CodePageDefined" by code_simp
  have d: "read_decomposition Unopenable = Inl CouldNotOpen" by code_simp
  have a: "read_mapping_ascii ?ascii = Inl ErrorReading" by code_simp
  have n: "read_mapping_ascii (Opened [] False) = Inl NoEntries" by code_simp
  have g: "read_decomposition ?good = Inr [(0x00C9, AddMark (Grapheme 0x0045) 0x0301)]"
    by code_simp
  note failing = imports_are_atomic [of ?main example_registry Unopenable ?ascii]
  note reading = imports_are_atomic [of ?main example_registry ?good ?ascii]
  from failing m have 1: "import_config_main ?main example_registry = example_registry"
    by blast
  from failing d have 2: "import_decomposition Unopenable example_registry = example_registry"
    by blast
  from failing a have 3: "import_mapping_ascii ?ascii example_registry = example_registry"
    by blast
  from imports_are_atomic [of ?main example_registry Unopenable "Opened [] False"] n
  have 5: "import_mapping_ascii (Opened [] False) example_registry = example_registry"
    by blast
  from reading g have 4: "import_decomposition ?good example_registry
     = example_registry\<lparr>decomposition_rules := [(0x00C9, AddMark (Grapheme 0x0045) 0x0301)]\<rparr>"
    by blast
  from m d a n g 1 2 3 4 5 show ?thesis by simp
qed

text \<open>
  C8. The claim has two parts: a line of \<^verbatim>\<open>DECOMPOSITION.TXT\<close> whose source code point
  already has a rule from an earlier line is rejected, and a mark token that is not a
  combining mark is rejected. The loop has no test for an existing rule:
  \<^verbatim>\<open>new_rules[code_point_1] = code_point_2\<close> assigns whether or not the source is
  mapped. In the file below the second line has the source of the first; the import
  succeeds and the table holds the rule of the second line.
\<close>

theorem decomposition_duplicate_source_counterexample:
  "read_decomposition
     (Opened (''0x00C1 0x0041 0x0301'' @ [CHR 0x0A] @ ''0x00C1 0x0045 0x0301'' @ [CHR 0x0A]) False)
     = Inr [(0x00C1, AddMark (Grapheme 0x0045) 0x0301)] \<and>
   decomposition_rules (import_decomposition
     (Opened (''0x00C1 0x0041 0x0301'' @ [CHR 0x0A] @ ''0x00C1 0x0045 0x0301'' @ [CHR 0x0A]) False)
     registry_initial) = [(0x00C1, AddMark (Grapheme 0x0045) 0x0301)]"
  by code_simp

text \<open>
  C8, as amended. Whether a line of \<^verbatim>\<open>DECOMPOSITION.TXT\<close> is accepted does not depend on
  the rules read from earlier lines; an accepted line sets the rule of its source code point
  to the base with the marks added, replacing a rule the source had, and leaves every other
  rule alone. A line in which a token from the third on is a code point that does not
  satisfy \<^verbatim>\<open>is_combining_mark\<close> is rejected, and a file in which such a line is read
  leaves the state unchanged: the new table is discarded.
\<close>

theorem decomposition_line_checks:
  "(isl (decomposition_line tokens new_rules) \<longleftrightarrow> isl (decomposition_line tokens [])) \<and>
   (sorted_wrt (<) (map fst new_rules) \<longrightarrow>
      (\<forall>rules'. decomposition_line tokens new_rules = Inr rules' \<longrightarrow>
         (\<exists>c1 c2 ms. get_hex_16bit (tokens ! 0) = Some c1 \<and> get_hex_16bit (tokens ! 1) = Some c2 \<and>
            mark_tokens (drop 2 tokens) = Some ms \<and>
            smap_find (<) rules' = (smap_find (<) new_rules)(c1 \<mapsto> foldl AddMark (Grapheme c2) ms)))) \<and>
   (\<forall>i m. 2 \<le> i \<and> i < length tokens \<and> get_hex_16bit (tokens ! i) = Some m \<and>
          \<not> is_combining_mark (ucast m) \<longrightarrow>
      isl (decomposition_line tokens new_rules) \<and>
      (\<forall>content before line_str rest input_error st.
         lines_of content = before @ line_str # rest \<and>
         (\<forall>l \<in> set before. \<not> starts_with_end_marking l) \<and>
         \<not> starts_with_end_marking line_str \<and> get_tokens line_str = tokens \<longrightarrow>
         import_decomposition (Opened content input_error) st = st))"
proof (intro conjI impI allI)
  show "isl (decomposition_line tokens new_rules) \<longleftrightarrow> isl (decomposition_line tokens [])"
    by (rule decomposition_line_independent)
next
  fix rules'
  assume "sorted_wrt (<) (map fst new_rules)" and "decomposition_line tokens new_rules = Inr rules'"
  then show "\<exists>c1 c2 ms. get_hex_16bit (tokens ! 0) = Some c1 \<and> get_hex_16bit (tokens ! 1) = Some c2 \<and>
            mark_tokens (drop 2 tokens) = Some ms \<and>
            smap_find (<) rules' = (smap_find (<) new_rules)(c1 \<mapsto> foldl AddMark (Grapheme c2) ms)"
    by (rule decomposition_line_accepts)
next
  fix i m
  assume a: "2 \<le> i \<and> i < length tokens \<and> get_hex_16bit (tokens ! i) = Some m \<and>
          \<not> is_combining_mark (ucast m)"
  then show "isl (decomposition_line tokens new_rules)"
    by (intro decomposition_line_not_mark [of i tokens m]) simp_all
next
  fix i m content before line_str rest input_error st
  assume a: "2 \<le> i \<and> i < length tokens \<and> get_hex_16bit (tokens ! i) = Some m \<and>
          \<not> is_combining_mark (ucast m)"
    and b: "lines_of content = before @ line_str # rest \<and>
         (\<forall>l \<in> set before. \<not> starts_with_end_marking l) \<and>
         \<not> starts_with_end_marking line_str \<and> get_tokens line_str = tokens"
  from a have f: "\<forall>s. isl (decomposition_line tokens s)"
    by (intro allI decomposition_line_not_mark [of i tokens m]) simp_all
  from a have ne: "tokens \<noteq> []" by auto
  from b ne f have "isl (read_decomposition (Opened content input_error))"
    unfolding read_decomposition_def
    by (intro read_file_line_fails [of content before line_str rest]) auto
  then show "import_decomposition (Opened content input_error) st = st"
    by (auto simp: import_decomposition_def isl_def)
qed

theorem decomposition_line_checks_witness:
  "sorted_wrt (<) (map fst example_rules) \<and>
   decomposition_line [''0x00C1'', ''0x0045'', ''0x0301''] example_rules
     = Inr [(0x00C1, AddMark (Grapheme 0x0045) 0x0301)] \<and>
   smap_find (<) [(0x00C1 :: u16, AddMark (Grapheme 0x0045) 0x0301)] 0x00C1
     = Some (foldl AddMark (Grapheme 0x0045) [0x0301]) \<and>
   get_hex_16bit ([''0x00C2'', ''0x0045'', ''0x0041''] ! 2) = Some 0x0041 \<and>
   \<not> is_combining_mark (ucast (0x0041 :: u16)) \<and>
   isl (decomposition_line [''0x00C2'', ''0x0045'', ''0x0041''] example_rules) \<and>
   lines_of (''0x00C1 0x0041 0x0301'' @ [CHR 0x0A] @ ''0x00C2 0x0045 0x0041'')
     = [''0x00C1 0x0041 0x0301''] @ ''0x00C2 0x0045 0x0041'' # [] \<and>
   get_tokens ''0x00C2 0x0045 0x0041'' = [''0x00C2'', ''0x0045'', ''0x0041''] \<and>
   import_decomposition
     (Opened (''0x00C1 0x0041 0x0301'' @ [CHR 0x0A] @ ''0x00C2 0x0045 0x0041'') False)
     example_registry = example_registry"
proof -
  let ?good = "[''0x00C1'', ''0x0045'', ''0x0301'']"
  let ?bad = "[''0x00C2'', ''0x0045'', ''0x0041'']"
  let ?content = "''0x00C1 0x0041 0x0301'' @ [CHR 0x0A] @ ''0x00C2 0x0045 0x0041''"
  have s: "sorted_wrt (<) (map fst example_rules)" by (simp add: example_rules_def)
  have l: "decomposition_line ?good example_rules
             = Inr [(0x00C1, AddMark (Grapheme 0x0045) 0x0301)]"
    by code_simp
  have f: "smap_find (<) [(0x00C1 :: u16, AddMark (Grapheme 0x0045) 0x0301)] 0x00C1
             = Some (foldl AddMark (Grapheme 0x0045) [0x0301])"
    by code_simp
  have h: "get_hex_16bit (?bad ! 2) = Some 0x0041" by code_simp
  have n: "\<not> is_combining_mark (ucast (0x0041 :: u16))" by code_simp
  have ls: "lines_of ?content = [''0x00C1 0x0041 0x0301''] @ ''0x00C2 0x0045 0x0041'' # []"
    by code_simp
  have t: "get_tokens ''0x00C2 0x0045 0x0041'' = ?bad" by code_simp
  have m1: "\<forall>l \<in> set [''0x00C1 0x0041 0x0301'']. \<not> starts_with_end_marking l" by code_simp
  have m2: "\<not> starts_with_end_marking ''0x00C2 0x0045 0x0041''" by code_simp
  have i: "(2::nat) \<le> 2 \<and> 2 < length ?bad \<and> get_hex_16bit (?bad ! 2) = Some 0x0041 \<and>
           \<not> is_combining_mark (ucast (0x0041 :: u16))"
    using h n by simp
  note bad = decomposition_line_checks [of ?bad example_rules, THEN conjunct2, THEN conjunct2,
      rule_format, OF i]
  from bad have r: "isl (decomposition_line ?bad example_rules)" by (rule conjunct1)
  from bad [THEN conjunct2, rule_format,
      of ?content "[''0x00C1 0x0041 0x0301'']" "''0x00C2 0x0045 0x0041''" "[]" False example_registry]
    ls t m1 m2
  have u: "import_decomposition (Opened ?content False) example_registry = example_registry"
    by blast
  from s l f h n r ls t u show ?thesis by blast
qed

section \<open>The example resources\<close>

lemma example_loaded_rules: "decomposition_rules example_loaded = example_rules"
  by code_simp

section \<open>Printable ASCII\<close>

lemma uint_ucast_8_16: "uint (ucast (b :: u8) :: u16) = uint b"
  by (simp add: uint_up_ucast is_up)

lemma uint_ucast_16_32: "uint (ucast (c :: u16) :: u32) = uint c"
  by (simp add: uint_up_ucast is_up)

lemma ucast_8_16_8: "(ucast (ucast (b :: u8) :: u16) :: u8) = b"
  by (simp add: ucast_up_ucast_id is_up)

lemma ascii_not_mark:
  assumes "(b :: u8) \<le> 0x7E"
  shows "\<not> is_combining_mark (ucast (ucast b :: u16))"
proof -
  from assms have "uint b \<le> 126" by (simp add: word_le_def)
  then have "uint (ucast (ucast b :: u16) :: u32) \<le> 126"
    by (simp add: uint_ucast_8_16 uint_ucast_16_32)
  then show ?thesis
    by (simp add: is_combining_mark_def combining_ranges_def word_le_def)
qed

lemma decode_at_ascii:
  assumes "(b :: u8) \<le> 0x7E"
  shows "decode_at b rest = (ucast b, True, 0)"
proof -
  from assms have "uint b \<le> 126" by (simp add: word_le_def)
  then show ?thesis
    by (simp add: decode_at_def decode_thresholds word_le_def word_less_def Let_def)
qed

lemma utf8_to_wide_ascii:
  "\<forall>b \<in> set s. b \<le> 0x7E \<Longrightarrow> utf8_to_wide s = (map ucast s, True)"
proof (induction s)
  case Nil
  show ?case by simp
next
  case (Cons b s)
  then have "(ucast (ucast b :: u32) :: u16) = ucast b"
    by (simp add: ucast_up_ucast is_up)
  with Cons show ?case by (simp add: decode_at_ascii)
qed

lemma encode_ascii:
  assumes "(b :: u8) \<le> 0x7E"
  shows "encode_code_point (ucast b) = [b]"
proof -
  from assms have "uint b \<le> 126" by (simp add: word_le_def)
  then have "uint (ucast b :: u16) < 128" by (simp add: uint_ucast_8_16)
  then show ?thesis
    by (simp add: encode_code_point_def encode_threshold_2_bytes_def word_less_def ucast_8_16_8)
qed

lemma dos_to_wide_char_ascii:
  assumes "0x20 \<le> (b :: u8)" "b \<le> 0x7E"
  shows "dos_to_wide_char st cp out b = out @ [ucast b]"
proof -
  from assms have "32 \<le> uint b" "uint b \<le> 126" by (simp_all add: word_le_def)
  then have "\<not> b \<ge> 0x80" "b \<noteq> 0x7f" "b \<ge> 0x20"
    by (auto simp: word_le_def)
  then show ?thesis by (simp add: dos_to_wide_char_def decode_threshold_non_ascii_def)
qed

lemma dos_to_wide_ascii:
  assumes "\<forall>b \<in> set s. 0x20 \<le> b \<and> b \<le> 0x7E"
  shows "foldl (dos_to_wide_char st cp) out s = out @ map ucast s"
  using assms by (induction s arbitrary: out) (simp_all add: dos_to_wide_char_ascii)

lemma wide_to_utf8_ascii:
  assumes "\<forall>b \<in> set s. b \<le> 0x7E"
  shows "wide_to_utf8 (map ucast s) = s"
  using assms by (induction s) (simp_all add: wide_to_utf8_def encode_ascii)

lemma push_7bit_ascii:
  assumes "(b :: u8) \<le> 0x7E"
  shows "push_7bit (Grapheme (ucast b)) out = (out @ [b], True)"
proof -
  from assms have "uint b \<le> 126" by (simp add: word_le_def)
  then have "\<not> (ucast b :: u16) \<ge> 0x80" by (simp add: word_le_def uint_ucast_8_16)
  with ascii_not_mark [OF assms] show ?thesis
    by (simp add: push_7bit_def Grapheme_def HasMark_def GetCodePoint_def
        decode_threshold_non_ascii_def ucast_8_16_8)
qed

lemma convert_grapheme_ascii:
  assumes "(b :: u8) \<le> 0x7E"
  shows "convert_grapheme st t (Grapheme (ucast b)) (out, status) = Some (out @ [b], status)"
  by (simp add: convert_grapheme_def push_normalized_def or_else_def push_7bit_ascii [OF assms])

lemma wide_to_dos_loop_ascii:
  assumes "\<forall>b \<in> set s. b \<le> 0x7E"
  shows "wide_to_dos_loop st t (map ucast s) (out, status) = Some (out @ s, status)"
  using assms
proof (induction s arbitrary: out)
  case Nil
  show ?case by simp
next
  case (Cons b s)
  have tw: "takeWhile (\<lambda>x. is_combining_mark (ucast x)) (map ucast s :: u16 list) = []"
    using Cons.prems by (cases s) (simp_all add: ascii_not_mark)
  have dw: "dropWhile (\<lambda>x. is_combining_mark (ucast x)) (map ucast s :: u16 list) = map ucast s"
    using Cons.prems by (cases s) (simp_all add: ascii_not_mark)
  from Cons.prems have b: "b \<le> 0x7E" by simp
  from Cons.prems Cons.IH [of "out @ [b]"] show ?case
    by (simp add: tw dw convert_grapheme_ascii [OF b])
qed

section \<open>Preparing a code page returns when the rules are acyclic\<close>

lemma Decompose_returns: "acyclic_rules rules \<Longrightarrow> \<exists>g'. Decompose rules g = Some g'"
  using Decompose_loop_terminates [of rules g] by (simp add: Decompose_def)

lemma construct_decomposed_loop_returns:
  assumes "acyclic_rules rules"
  shows "\<exists>d. construct_decomposed_loop rules normalized decomposed = Some d"
proof (induction normalized arbitrary: decomposed)
  case Nil
  show ?case by simp
next
  case (Cons entry normalized)
  obtain g c where e: "entry = (g, c)" by (cases entry)
  from Decompose_returns [OF assms, of g] obtain tmp where "Decompose rules g = Some tmp" ..
  with e Cons.IH show ?case by simp
qed

lemma construct_aliases_returns:
  assumes "acyclic_rules (decomposition_rules st)"
  shows "\<exists>st'. construct_aliases st code_page = Some st' \<and>
               decomposition_rules st' = decomposition_rules st"
proof -
  let ?a = "construct_aliases_loop (smap_at (<) [] (mappings_normalized_by_codepage st) code_page)
              (config_aliases st) (smap_at (<) [] (aliases_normalized_by_codepage st) code_page)"
  from construct_decomposed_loop_returns [OF assms, of ?a "[]"]
  obtain d where "construct_decomposed (decomposition_rules st) ?a = Some d"
    by (auto simp: construct_decomposed_def)
  then show ?thesis by (simp add: construct_aliases_def Let_def)
qed

lemma construct_mapping_finish_returns:
  assumes "acyclic_rules (decomposition_rules st)"
  shows "\<exists>st' ok. construct_mapping_finish files st code_page config_mapping maps = Some (st', ok) \<and>
               decomposition_rules st' = decomposition_rules st"
proof -
  let ?m = "if extends_file config_mapping \<noteq> [] then
              (case import_mapping_code_page
                      (files (extends_dir config_mapping) (extends_file config_mapping)) of
                 Inl e \<Rightarrow> None
               | Inr mapping_file \<Rightarrow> Some (add_reverse_entries mapping_file maps))
            else Some maps"
  show ?thesis
  proof (cases ?m)
    case None
    then show ?thesis by (auto simp: construct_mapping_finish_def)
  next
    case (Some nm)
    obtain new_mapping new_mapping_reverse where nm: "nm = (new_mapping, new_mapping_reverse)"
      by (cases nm)
    from construct_decomposed_loop_returns [OF assms, of new_mapping "[]"]
    obtain d where "construct_decomposed (decomposition_rules st) new_mapping = Some d"
      by (auto simp: construct_decomposed_def)
    with Some nm show ?thesis by (auto simp: construct_mapping_finish_def)
  qed
qed

lemma prepare_construct_return:
  "(acyclic_rules (decomposition_rules st) \<longrightarrow>
      (\<exists>st' ok. prepare_code_page files st code_page = Some (st', ok) \<and>
                decomposition_rules st' = decomposition_rules st))"
  "(acyclic_rules (decomposition_rules st) \<longrightarrow>
      (\<exists>st' ok. construct_mapping files st code_page = Some (st', ok) \<and>
                decomposition_rules st' = decomposition_rules st))"
proof (induction files st code_page and files st code_page
    rule: prepare_code_page_construct_mapping.induct)
  case (1 files st code_page)
  show ?case
  proof
    assume a: "acyclic_rules (decomposition_rules st)"
    show "\<exists>st' ok. prepare_code_page files st code_page = Some (st', ok) \<and>
                decomposition_rules st' = decomposition_rules st"
    proof (cases "smap_count (<) (mappings_normalized_by_codepage st) code_page")
      case True
      then show ?thesis by (subst prepare_code_page.simps) auto
    next
      case False
      note nf = this
      show ?thesis
      proof (cases "smap_count (<) (config_mappings st) code_page")
        case False
        with nf show ?thesis
          by (subst prepare_code_page.simps) (auto simp: erase_code_page_def)
      next
        case True
        from "1.IH" [OF nf] True a obtain st1 ok where
          cm: "construct_mapping files st code_page = Some (st1, ok)"
          and d1: "decomposition_rules st1 = decomposition_rules st" by auto
        show ?thesis
        proof (cases ok)
          case False
          with nf True cm d1 show ?thesis
            by (subst prepare_code_page.simps) (auto simp: erase_code_page_def)
        next
          case ok: True
          from a d1 have "acyclic_rules (decomposition_rules st1)" by simp
          from construct_aliases_returns [OF this, of code_page] obtain st2 where
            "construct_aliases st1 code_page = Some st2"
            "decomposition_rules st2 = decomposition_rules st1" by auto
          with nf True cm d1 ok show ?thesis
            by (subst prepare_code_page.simps) auto
        qed
      qed
    qed
  qed
next
  case (2 files st code_page)
  show ?case
  proof
    assume a: "acyclic_rules (decomposition_rules st)"
    let ?st1 = "st\<lparr>already_tried := code_page # already_tried st\<rparr>"
    let ?cm = "smap_at (<) ConfigMappingEntry_default (config_mappings ?st1) code_page"
    let ?maps = "add_reverse_entries (mapping ?cm) ([], [])"
    let ?dep = "deduplicate_code_page ?st1 (extends_code_page ?cm)"
    have a1: "acyclic_rules (decomposition_rules ?st1)" using a by simp
    show "\<exists>st' ok. construct_mapping files st code_page = Some (st', ok) \<and>
                decomposition_rules st' = decomposition_rules st"
    proof (cases "code_page \<in> set (already_tried st)")
      case True
      then show ?thesis by (subst construct_mapping.simps) auto
    next
      case False
      note nt = this
      show ?thesis
      proof (cases "extends_code_page ?cm \<noteq> 0")
        case False
        from construct_mapping_finish_returns [OF a1, of files code_page ?cm ?maps]
        show ?thesis using nt False by (subst construct_mapping.simps) (auto simp: Let_def)
      next
        case True
        from "2.IH" [OF nt refl refl refl True refl] a1 obtain st2 ok where
          p: "prepare_code_page files ?st1 ?dep = Some (st2, ok)"
          and d2: "decomposition_rules st2 = decomposition_rules st" by auto
        show ?thesis
        proof (cases ok)
          case False
          with nt True p d2 show ?thesis
            by (subst construct_mapping.simps) (auto simp: Let_def)
        next
          case ok: True
          from a d2 have "acyclic_rules (decomposition_rules st2)" by simp
          from construct_mapping_finish_returns [OF this, of files code_page ?cm
              "add_forward_entries (smap_at (<) [] (mappings_normalized_by_codepage st2) ?dep) ?maps"]
          show ?thesis using nt True p d2 ok
            by (subst construct_mapping.simps) (auto simp: Let_def)
        qed
      qed
    qed
  qed
qed

lemma get_default_code_page_returns:
  assumes "acyclic_rules (decomposition_rules st)"
  shows "\<exists>st' cp. get_default_code_page files st = Some (st', cp)"
  using prepare_construct_return(1) [of st files default_code_page] assms
  by (auto simp: get_default_code_page_def)

lemma get_custom_code_page_returns:
  assumes "acyclic_rules (decomposition_rules st)"
  shows "\<exists>st' cp. get_custom_code_page files st code_page = Some (st', cp)"
proof (cases "code_page = 0")
  case True
  then show ?thesis by (simp add: get_custom_code_page_def)
next
  case False
  from prepare_construct_return(1) [of st files "deduplicate_code_page st code_page"] assms
  obtain st1 ok where p: "prepare_code_page files st (deduplicate_code_page st code_page) = Some (st1, ok)"
    and d: "decomposition_rules st1 = decomposition_rules st" by auto
  from assms d have "acyclic_rules (decomposition_rules st1)" by simp
  from get_default_code_page_returns [OF this, of files] p False
  show ?thesis by (auto simp: get_custom_code_page_def)
qed

text \<open>
  C3. For every byte string \<open>s\<close> whose bytes lie in \<^verbatim>\<open>0x20..0x7E\<close>,
  \<^verbatim>\<open>dos_to_utf8(s, 437)\<close> returns \<open>s\<close> and \<^verbatim>\<open>utf8_to_dos(s, 437)\<close> returns
  \<open>s\<close> with the flag true. This holds for whatever code page the request for 437 resolves
  to, in every state of the tables, and the steps of the conversion return for every code
  page; the entry points return when the decomposition rules that were loaded are acyclic,
  which preparing code page 437 needs.
\<close>

theorem printable_ascii_round_trip:
  assumes "\<forall>b \<in> set s. 0x20 \<le> b \<and> b \<le> 0x7E"
  shows "(\<forall>st code_page. wide_to_utf8 (dos_to_wide st s code_page) = s \<and>
            wide_to_dos st (fst (utf8_to_wide s)) code_page = Some (s, True) \<and>
            snd (utf8_to_wide s)) \<and>
         (\<forall>st' cp. get_custom_code_page files (load_config_if_needed files st) 437 = Some (st', cp)
            \<longrightarrow> dos_to_utf8 files st s 437 = Some (st', s) \<and>
                utf8_to_dos files st s 437 = Some (st', s, True)) \<and>
         (acyclic (rule_step (decomposition_rules (load_config_if_needed files st))) \<longrightarrow>
            (\<exists>st'. dos_to_utf8 files st s 437 = Some (st', s) \<and>
                   utf8_to_dos files st s 437 = Some (st', s, True)))"
proof -
  from assms have le: "\<forall>b \<in> set s. b \<le> 0x7E" by simp
  have pipeline: "wide_to_utf8 (dos_to_wide st s code_page) = s \<and>
            wide_to_dos st (fst (utf8_to_wide s)) code_page = Some (s, True) \<and>
            snd (utf8_to_wide s)" for st code_page
    using dos_to_wide_ascii [OF assms, of st code_page "[]"]
    by (simp add: dos_to_wide_def wide_to_utf8_ascii [OF le] utf8_to_wide_ascii [OF le]
        wide_to_dos_def wide_to_dos_loop_ascii [OF le])
  have entry: "dos_to_utf8 files st s 437 = Some (st', s) \<and>
               utf8_to_dos files st s 437 = Some (st', s, True)"
    if "get_custom_code_page files (load_config_if_needed files st) 437 = Some (st', cp)"
    for st' cp
    using that pipeline [of st' cp]
    by (simp add: dos_to_utf8_def utf8_to_dos_def utf8_to_wide_ascii [OF le])
  have total: "\<exists>st'. dos_to_utf8 files st s 437 = Some (st', s) \<and>
                   utf8_to_dos files st s 437 = Some (st', s, True)"
    if "acyclic (rule_step (decomposition_rules (load_config_if_needed files st)))"
  proof -
    from that have "acyclic_rules (decomposition_rules (load_config_if_needed files st))"
      by (simp add: acyclic_rules_def)
    from get_custom_code_page_returns [OF this, of files 437] obtain st' cp where
      "get_custom_code_page files (load_config_if_needed files st) 437 = Some (st', cp)" by auto
    from entry [OF this] show ?thesis by blast
  qed
  from pipeline entry total show ?thesis by blast
qed

theorem printable_ascii_round_trip_witness:
  "list_all (\<lambda>b. 0x20 \<le> b \<and> b \<le> 0x7E) [0x48, 0x69, 0x7E, 0x20 :: u8] \<and>
   acyclic (rule_step (decomposition_rules (load_config_if_needed example_files registry_initial))) \<and>
   map_option snd (dos_to_utf8 example_files registry_initial [0x48, 0x69, 0x7E, 0x20] 437)
     = Some [0x48, 0x69, 0x7E, 0x20] \<and>
   map_option snd (utf8_to_dos example_files registry_initial [0x48, 0x69, 0x7E, 0x20] 437)
     = Some ([0x48, 0x69, 0x7E, 0x20], True)"
proof -
  have h: "\<forall>b \<in> set [0x48, 0x69, 0x7E, 0x20 :: u8]. 0x20 \<le> b \<and> b \<le> 0x7E" by simp
  have a: "acyclic (rule_step (decomposition_rules (load_config_if_needed example_files
             registry_initial)))"
    using acyclic_example example_loaded_rules by (simp add: example_loaded_def)
  from printable_ascii_round_trip [OF h, of example_files registry_initial] a
  obtain st' where
    "dos_to_utf8 example_files registry_initial [0x48, 0x69, 0x7E, 0x20] 437
       = Some (st', [0x48, 0x69, 0x7E, 0x20])"
    "utf8_to_dos example_files registry_initial [0x48, 0x69, 0x7E, 0x20] 437
       = Some (st', [0x48, 0x69, 0x7E, 0x20], True)"
    by blast
  with h a show ?thesis by simp
qed

section \<open>Code page 0 and the default code page\<close>

lemma or_else_not_pushed: "or_else (push_code_page None g) f = f"
  by (rule ext) (simp add: or_else_def push_code_page_def)

lemma import_keeps_code_page_tables:
  "mappings_normalized_by_codepage (import_config_main f st) = mappings_normalized_by_codepage st"
  "mappings_normalized_by_codepage (import_mapping_ascii f st) = mappings_normalized_by_codepage st"
  "mappings_normalized_by_codepage (import_decomposition f st) = mappings_normalized_by_codepage st"
  by (simp_all add: import_config_main_def import_mapping_ascii_def import_decomposition_def
      split: sum.splits)

text \<open>
  C10. With \<^verbatim>\<open>code_page = 0\<close> the entry points never fall back to code page 437:
  \<^verbatim>\<open>get_custom_code_page(0)\<close> returns 0 and leaves the state alone, and the conversion
  runs with no code page: its result depends on the tables only through
  \<^verbatim>\<open>mapping_ascii\<close> and the decomposition rules, a grapheme is pushed by the 7-bit
  shortcut or the ASCII fallback table only, and no per-code-page table is built. For a
  nonzero code page whose preparation (after deduplication) fails,
  \<^verbatim>\<open>get_custom_code_page\<close> returns what \<^verbatim>\<open>get_default_code_page\<close> returns: 437 when
  preparing 437 succeeds, and 0 when that fails too.
\<close>

theorem code_page_zero_and_fallback:
  "get_custom_code_page files st 0 = Some (st, 0) \<and>
   utf8_to_dos files st str_in 0 =
     map_option (\<lambda>(str_out, status2).
         (load_config_if_needed files st, str_out, snd (utf8_to_wide str_in) \<and> status2))
       (wide_to_dos (load_config_if_needed files st) (fst (utf8_to_wide str_in)) 0) \<and>
   mappings_normalized_by_codepage (load_config_if_needed files st)
     = mappings_normalized_by_codepage st \<and>
   push_normalized st (find_tables st 0) g = or_else (push_7bit g) (push_fallback st g) \<and>
   push_decomposed st (find_tables st 0) g str_out =
     map_option (\<lambda>decomposed. (str_out, False)) (Decompose (decomposition_rules st) g) \<and>
   (\<forall>other :: registry. mapping_ascii other = mapping_ascii st \<and>
            decomposition_rules other = decomposition_rules st \<longrightarrow>
            wide_to_dos other str_wide 0 = wide_to_dos st str_wide 0) \<and>
   (code_page \<noteq> 0 \<longrightarrow>
      (\<forall>st'. prepare_code_page files st (deduplicate_code_page st code_page) = Some (st', False) \<longrightarrow>
         get_custom_code_page files st code_page = get_default_code_page files st' \<and>
         get_default_code_page files st' =
           (case prepare_code_page files st' 437 of
              None \<Rightarrow> None
            | Some (st'', ok) \<Rightarrow> Some (st'', if ok then 437 else 0))))"
proof (intro conjI)
  show "get_custom_code_page files st 0 = Some (st, 0)"
    by (simp add: get_custom_code_page_def)
  show "utf8_to_dos files st str_in 0 =
     map_option (\<lambda>(str_out, status2).
         (load_config_if_needed files st, str_out, snd (utf8_to_wide str_in) \<and> status2))
       (wide_to_dos (load_config_if_needed files st) (fst (utf8_to_wide str_in)) 0)"
    by (cases "utf8_to_wide str_in")
      (simp add: utf8_to_dos_def get_custom_code_page_def split: option.splits)
  show "mappings_normalized_by_codepage (load_config_if_needed files st)
     = mappings_normalized_by_codepage st"
    by (simp add: load_config_if_needed_def import_keeps_code_page_tables)
  show "push_normalized st (find_tables st 0) g = or_else (push_7bit g) (push_fallback st g)"
    by (simp add: push_normalized_def find_tables_def or_else_not_pushed)
  show "push_decomposed st (find_tables st 0) g str_out =
     map_option (\<lambda>decomposed. (str_out, False)) (Decompose (decomposition_rules st) g)"
    by (simp add: push_decomposed_def find_tables_def or_else_def push_code_page_def
        split: option.splits)
  show "\<forall>other :: registry. mapping_ascii other = mapping_ascii st \<and>
            decomposition_rules other = decomposition_rules st \<longrightarrow>
            wide_to_dos other str_wide 0 = wide_to_dos st str_wide 0"
  proof (intro allI impI)
    fix other :: registry
    assume eq: "mapping_ascii other = mapping_ascii st \<and>
            decomposition_rules other = decomposition_rules st"
    let ?t = "\<lparr>mapping_normalized = None, mapping_decomposed = None,
         aliases_normalized = None, aliases_decomposed = None\<rparr>"
    from eq have ea: "mapping_ascii other = mapping_ascii st"
      and ed: "decomposition_rules other = decomposition_rules st" by simp_all
    have pf: "push_fallback other = push_fallback st"
      by (rule ext)+ (simp add: push_fallback_def ea)
    have pn: "push_normalized other = push_normalized st"
      by (rule ext)+ (simp only: push_normalized_def pf)
    have pd: "push_decomposed other = push_decomposed st"
      by (rule ext)+ (simp only: push_decomposed_def ed)
    have step: "convert_grapheme other ?t h acc = convert_grapheme st ?t h acc" for h acc
      by (simp only: convert_grapheme_def pn pd ed)
    have "wide_to_dos_loop other ?t ws acc = wide_to_dos_loop st ?t ws acc" for ws acc
    proof (induction ws arbitrary: acc rule: length_induct)
      case (1 ws)
      show ?case
      proof (cases ws)
        case Nil
        then show ?thesis by simp
      next
        case (Cons c rest)
        have "length (dropWhile (\<lambda>x. is_combining_mark (ucast x)) rest) < length ws"
          using Cons by (simp add: less_Suc_eq_le length_dropWhile_le)
        with 1 Cons show ?thesis by (simp add: step split: option.splits)
      qed
    qed
    then show "wide_to_dos other str_wide 0 = wide_to_dos st str_wide 0"
      by (simp add: wide_to_dos_def find_tables_def)
  qed
  show "code_page \<noteq> 0 \<longrightarrow>
      (\<forall>st'. prepare_code_page files st (deduplicate_code_page st code_page) = Some (st', False) \<longrightarrow>
         get_custom_code_page files st code_page = get_default_code_page files st' \<and>
         get_default_code_page files st' =
           (case prepare_code_page files st' 437 of
              None \<Rightarrow> None
            | Some (st'', ok) \<Rightarrow> Some (st'', if ok then 437 else 0)))"
    by (auto simp: get_custom_code_page_def get_default_code_page_def default_code_page_def
        split: option.splits)
qed

theorem code_page_zero_and_fallback_witness:
  "(850 :: u16) \<noteq> 0 \<and>
   map_option snd (prepare_code_page example_files example_loaded
                     (deduplicate_code_page example_loaded 850)) = Some False \<and>
   get_custom_code_page example_files example_loaded 850
     = get_default_code_page example_files
         (fst (the (prepare_code_page example_files example_loaded
                      (deduplicate_code_page example_loaded 850)))) \<and>
   map_option snd (get_custom_code_page example_files example_loaded 850) = Some 437 \<and>
   map_option snd (get_custom_code_page (\<lambda>dir name. Unopenable) registry_initial 850) = Some 0 \<and>
   wide_to_dos example_prepared [0x00FC, 0x0041] 0 = Some ([0x3F, 0x41], False) \<and>
   wide_to_dos example_prepared [0x00FC, 0x0041] 437 = Some ([0x81, 0x41], True)"
proof -
  let ?failed = "prepare_code_page example_files example_loaded
                   (deduplicate_code_page example_loaded 850)"
  have p: "map_option snd ?failed = Some False" by code_simp
  then have p': "?failed = Some (fst (the ?failed), False)" by (cases ?failed) auto
  have n: "(850 :: u16) \<noteq> 0" by simp
  from code_page_zero_and_fallback [of example_files example_loaded _ _ _ _ 850] n p'
  have c: "get_custom_code_page example_files example_loaded 850
             = get_default_code_page example_files (fst (the ?failed))"
    by blast
  have d: "map_option snd (get_custom_code_page example_files example_loaded 850) = Some 437"
    by code_simp
  have z: "map_option snd (get_custom_code_page (\<lambda>dir name. Unopenable) registry_initial 850)
             = Some 0"
    by code_simp
  have w: "wide_to_dos example_prepared [0x00FC, 0x0041] 0 = Some ([0x3F, 0x41], False) \<and>
           wide_to_dos example_prepared [0x00FC, 0x0041] 437 = Some ([0x81, 0x41], True)"
    by code_simp
  from n p c d z w show ?thesis by simp
qed

section \<open>Bytes above \<^verbatim>\<open>0x7F\<close> in \<^verbatim>\<open>dos_to_wide\<close>\<close>

lemma dos_to_wide_char_append:
  "dos_to_wide_char st cp out b = out @ dos_to_wide_char st cp [] b"
  by (simp add: dos_to_wide_char_def PushInto_def split: option.splits)

lemma foldl_dos_to_wide_char:
  "foldl (dos_to_wide_char st cp) out xs = out @ concat (map (dos_to_wide_char st cp []) xs)"
proof (induction xs arbitrary: out)
  case Nil
  show ?case by simp
next
  case (Cons b xs)
  have "foldl (dos_to_wide_char st cp) out (b # xs)
          = foldl (dos_to_wide_char st cp) (dos_to_wide_char st cp out b) xs"
    by simp
  also have "\<dots> = dos_to_wide_char st cp out b @ concat (map (dos_to_wide_char st cp []) xs)"
    by (rule Cons.IH)
  also have "\<dots> = out @ concat (map (dos_to_wide_char st cp []) (b # xs))"
    by (subst dos_to_wide_char_append) simp
  finally show ?case .
qed

lemma dos_to_wide_concat:
  "dos_to_wide st str_in cp = concat (map (dos_to_wide_char st cp []) str_in)"
  by (simp add: dos_to_wide_def foldl_dos_to_wide_char)

text \<open>
  C2. The claim is that a byte from \<^verbatim>\<open>0x80\<close> on pushes the base and the marks of its
  grapheme when the reverse mapping holds a non-empty valid one, and exactly one
  \<^verbatim>\<open>0x3F\<close> in every other case. When the byte is present and its grapheme is empty, the
  code calls \<^verbatim>\<open>PushInto\<close>, which returns at its guard: nothing is pushed. The main
  configuration of the example marks byte \<^verbatim>\<open>0x80\<close> of code page 437 as undefined, which
  stores the default-constructed grapheme for it.
\<close>

theorem dos_to_wide_undefined_byte_counterexample:
  "reverse_lookup example_prepared 437 0x80 = Some Grapheme_default \<and>
   is_empty Grapheme_default \<and>
   dos_to_wide example_prepared [0x80] 437 = [] \<and>
   dos_to_wide example_prepared [0x80] 437 \<noteq> [0x3F] \<and>
   map_option snd (dos_to_utf8 example_files registry_initial [0x80, 0x81, 0x41] 437)
     = Some [0xC3, 0xBC, 0x41]"
  by code_simp

text \<open>
  C2, as amended. In \<^verbatim>\<open>dos_to_wide\<close>, every byte from \<^verbatim>\<open>0x80\<close> on contributes,
  at its place in the output: the sentinel \<^verbatim>\<open>0x3F\<close> when the code page has no reverse
  mapping or the mapping lacks the byte; the base followed by the marks when the stored
  grapheme is non-empty and valid; and nothing when the stored grapheme is empty or invalid.
\<close>

theorem dos_to_wide_high_byte:
  assumes "byte \<ge> 0x80"
  shows "dos_to_wide st (before @ [byte] @ after) code_page =
           dos_to_wide st before code_page @
           (case reverse_lookup st code_page byte of
              None \<Rightarrow> [0x3F]
            | Some g \<Rightarrow> if is_empty g \<or> \<not> is_valid g then [] else code_point g # marks g) @
           dos_to_wide st after code_page"
  using assms
  by (simp add: dos_to_wide_concat dos_to_wide_char_def reverse_lookup_def PushInto_def
      decode_threshold_non_ascii_def unknown_character_def split: option.splits)

theorem dos_to_wide_high_byte_witness:
  "(0x81 :: u8) \<ge> 0x80 \<and> (0x80 :: u8) \<ge> 0x80 \<and> (0x82 :: u8) \<ge> 0x80 \<and>
   dos_to_wide example_prepared ([0x41] @ [0x81] @ [0x42]) 437 = [0x41] @ [0x00FC] @ [0x42] \<and>
   dos_to_wide example_prepared ([0x41] @ [0x80] @ [0x42]) 437 = [0x41] @ [] @ [0x42] \<and>
   dos_to_wide example_prepared ([0x41] @ [0x82] @ [0x42]) 437 = [0x41] @ [0x3F] @ [0x42]"
proof -
  have b: "(0x81 :: u8) \<ge> 0x80" "(0x80 :: u8) \<ge> 0x80" "(0x82 :: u8) \<ge> 0x80" by simp_all
  have l: "reverse_lookup example_prepared 437 0x81 = Some (Grapheme 0x00FC)"
    "reverse_lookup example_prepared 437 0x80 = Some Grapheme_default"
    "reverse_lookup example_prepared 437 0x82 = None"
    by code_simp+
  have e: "dos_to_wide example_prepared [0x41] 437 = [0x41]"
    "dos_to_wide example_prepared [0x42] 437 = [0x42]"
    by code_simp+
  have g: "is_empty Grapheme_default" "\<not> is_empty (Grapheme 0x00FC)" "is_valid (Grapheme 0x00FC)"
    "code_point (Grapheme 0x00FC) = 0x00FC" "marks (Grapheme 0x00FC) = []"
    by code_simp+
  from dos_to_wide_high_byte [OF b(1), of example_prepared "[0x41]" "[0x42]" 437]
    dos_to_wide_high_byte [OF b(2), of example_prepared "[0x41]" "[0x42]" 437]
    dos_to_wide_high_byte [OF b(3), of example_prepared "[0x41]" "[0x42]" 437]
    b l e g
  show ?thesis by simp
qed

end
